theory Spec2Isabelle
  imports
    Main
    "HOL-Library.AList"
    "HOL-Library.Char_ord"
    "HOL-Library.Code_Target_Nat"
    "HOL-Library.List_Lexorder"
    "HOL-Library.Multiset"
begin

section \<open>Strings\<close>

text \<open>
  Python strings are modelled as \<^typ>\<open>string\<close>, one \<^typ>\<open>char\<close> per character, and the
  characters are read as ASCII: \<open>str.upper\<close> maps \<open>a\<close>..\<open>z\<close> to \<open>A\<close>..\<open>Z\<close> and leaves
  every other character alone. String comparison is Python's, character by character
  (the lexicographic order on lists over the order on character codes).
\<close>

definition lowercase :: string where
  "lowercase = ''abcdefghijklmnopqrstuvwxyz''"

definition uppercase :: string where
  "uppercase = ''ABCDEFGHIJKLMNOPQRSTUVWXYZ''"

definition upper_char :: "char \<Rightarrow> char" where
  "upper_char c = (case map_of (zip lowercase uppercase) c of Some u \<Rightarrow> u | None \<Rightarrow> c)"

definition upper :: "string \<Rightarrow> string" where
  "upper s = map upper_char s"

definition is_digit :: "char \<Rightarrow> bool" where
  "is_digit c = (c \<in> set ''0123456789'')"

text \<open>The characters \<open>str.strip()\<close> removes, among the codes below 256: tab to carriage
  return, the four separators, the space, next line and the no-break space.\<close>

definition whitespace :: string where
  "whitespace = [CHR 0x09, CHR 0x0A, CHR 0x0B, CHR 0x0C, CHR 0x0D, CHR 0x1C, CHR 0x1D,
                 CHR 0x1E, CHR 0x1F, CHR 0x20, CHR 0x85, CHR 0xA0]"

definition is_space :: "char \<Rightarrow> bool" where
  "is_space c = (c \<in> set whitespace)"

definition strip :: "string \<Rightarrow> string" where
  "strip s = rev (dropWhile is_space (rev (dropWhile is_space s)))"

subsection \<open>Decimal numerals\<close>

definition digit_char :: "nat \<Rightarrow> char" where
  "digit_char d = ''0123456789'' ! d"

fun digits :: "nat \<Rightarrow> string" where
  "digits n = (if n < 10 then [digit_char n] else digits (n div 10) @ [digit_char (n mod 10)])"

declare digits.simps [simp del]

text \<open>\<open>format(n, "0wd")\<close>: decimal, padded with zeros on the left up to width \<open>w\<close>.\<close>

definition zero_pad :: "nat \<Rightarrow> nat \<Rightarrow> string" where
  "zero_pad w n = replicate (w - length (digits n)) (CHR ''0'') @ digits n"

definition digit_val :: "char \<Rightarrow> nat" where
  "digit_val c = length (takeWhile (\<lambda>x. x \<noteq> c) ''0123456789'')"

text \<open>The number a string of decimal digits denotes (\<open>int(s)\<close> on such a string).\<close>

definition dec_val :: "string \<Rightarrow> nat" where
  "dec_val s = foldl (\<lambda>a c. 10 * a + digit_val c) 0 s"

section \<open>Errors\<close>

text \<open>
  The exceptions of \<open>src/lib/exceptions.py\<close> that the service raises, and the three
  library exceptions that can occur while the storage file is read.
\<close>

datatype error =
    EmptyTitleError
  | TitleTooLongError
  | DescriptionTooLongError
  | InvalidIDFormatError
  | TaskNotFoundError string
  | NoChangesSpecifiedError
  | JSONDecodeError
  | KeyError string
  | ValueError

section \<open>Validation\<close>

definition MAX_TITLE_LENGTH :: nat where
  "MAX_TITLE_LENGTH = 200"

definition MAX_DESCRIPTION_LENGTH :: nat where
  "MAX_DESCRIPTION_LENGTH = 1000"

text \<open>
  Modelled from the spec: \<open>src/lib/validators.py\<close> (\<open>validate_title\<close>,
  \<open>validate_description\<close>, \<open>validate_task_id\<close>) is not among the sources;
  the three functions follow section 4.1 of the specification and the unit tests.
\<close>

definition validate_title :: "string \<Rightarrow> error + string" where
  "validate_title raw =
     (let title = strip raw in
      if length title = 0 then Inl EmptyTitleError
      else if length title > MAX_TITLE_LENGTH then Inl TitleTooLongError
      else Inr title)"

definition validate_description :: "string \<Rightarrow> error + string" where
  "validate_description raw =
     (if length raw > MAX_DESCRIPTION_LENGTH then Inl DescriptionTooLongError else Inr raw)"

text \<open>The pattern: the letter T in either case, then one or more ASCII digits, nothing else.\<close>

fun matches_id :: "string \<Rightarrow> bool" where
  "matches_id [] = False"
| "matches_id (c # ds) = ((c = CHR ''T'' \<or> c = CHR ''t'') \<and> ds \<noteq> [] \<and> list_all is_digit ds)"

definition validate_task_id :: "string \<Rightarrow> error + string" where
  "validate_task_id raw = (if matches_id raw then Inr (upper raw) else Inl InvalidIDFormatError)"

section \<open>Identifier allocator\<close>

text \<open>
  Modelled from the spec: \<open>src/lib/id_generator.py\<close> (\<open>IDGenerator\<close>) is not among the
  sources. Its state is the counter, a natural number starting at 0; \<open>next\<close> increments
  it and formats it as \<open>T\<close> followed by the counter padded with zeros to three digits
  (section 4.2 of the specification).
\<close>

definition format_id :: "nat \<Rightarrow> string" where
  "format_id n = CHR ''T'' # zero_pad 3 n"

definition next_id :: "nat \<Rightarrow> string \<times> nat" where
  "next_id counter = (format_id (counter + 1), counter + 1)"

section \<open>Task entity\<close>

text \<open>
  A \<open>datetime\<close>: naive when \<open>utcoffset\<close> is \<open>None\<close>, otherwise aware, with a fixed offset
  from UTC in microseconds. Python keeps the fields in range (\<open>valid_datetime\<close>); the
  model states that where it matters.
\<close>

record datetime =
  year :: nat
  month :: nat
  day :: nat
  hour :: nat
  minute :: nat
  second :: nat
  microsecond :: nat
  utcoffset :: "int option"

definition is_leap :: "nat \<Rightarrow> bool" where
  "is_leap y = (y mod 4 = 0 \<and> (y mod 100 \<noteq> 0 \<or> y mod 400 = 0))"

definition days_in_month :: "nat \<Rightarrow> nat \<Rightarrow> nat" where
  "days_in_month y m =
     (if m = 2 then (if is_leap y then 29 else 28)
      else if m = 4 \<or> m = 6 \<or> m = 9 \<or> m = 11 then 30 else 31)"

definition valid_date_time :: "nat \<Rightarrow> nat \<Rightarrow> nat \<Rightarrow> nat \<Rightarrow> nat \<Rightarrow> nat \<Rightarrow> bool" where
  "valid_date_time y mo d h mi s =
     (1 \<le> y \<and> y \<le> 9999 \<and> 1 \<le> mo \<and> mo \<le> 12 \<and> 1 \<le> d \<and> d \<le> days_in_month y mo
      \<and> h < 24 \<and> mi < 60 \<and> s < 60)"

definition valid_datetime :: "datetime \<Rightarrow> bool" where
  "valid_datetime t =
     (valid_date_time (year t) (month t) (day t) (hour t) (minute t) (second t)
      \<and> microsecond t < 1000000
      \<and> (case utcoffset t of
           None \<Rightarrow> True
         | Some off \<Rightarrow> - 86400000000 < off \<and> off < 86400000000))"

record task =
  id_t :: string
  title :: string
  description :: string
  completed :: bool
  created_at :: datetime

text \<open>The dataclass constructor with \<open>__post_init__\<close>: the id is stored in upper case.\<close>

definition Task :: "string \<Rightarrow> string \<Rightarrow> string \<Rightarrow> bool \<Rightarrow> datetime \<Rightarrow> task" where
  "Task i t d c at =
     \<lparr>id_t = upper i, title = t, description = d, completed = c, created_at = at\<rparr>"

text \<open>
  \<open>strftime("%Y-%m-%dT%H:%M:%S")\<close>: neither the microseconds nor the offset are written.
  The month, day, hour, minute and second are padded to two digits; the year is written
  as the C library of Linux writes \<open>%Y\<close>, without padding, so a year below 1000 has fewer
  than four digits.
\<close>

definition format_created_at :: "task \<Rightarrow> string" where
  "format_created_at t =
     (let at = created_at t in
      digits (year at) @ ''-'' @ zero_pad 2 (month at) @ ''-'' @ zero_pad 2 (day at) @ ''T''
      @ zero_pad 2 (hour at) @ '':'' @ zero_pad 2 (minute at) @ '':'' @ zero_pad 2 (second at))"

subsection \<open>Reading a timestamp\<close>

text \<open>
  \<open>datetime.fromisoformat\<close> as CPython 3.11 implements it (\<open>Modules/_datetimemodule.c\<close>),
  function by function, for calendar dates: \<open>YYYY-MM-DD\<close> or \<open>YYYYMMDD\<close>, then nothing, or
  any one character and a time \<open>HH[:MM[:SS[.ffffff]]]\<close> (or without the colons), then
  nothing, \<open>Z\<close>, or a sign and an offset written like a time. \<open>None\<close> is the library's
  \<open>ValueError\<close>. ISO week dates (a \<open>W\<close> after the year) are outside the model, which
  rejects them.
\<close>

text \<open>\<open>parse_digits(p, n)\<close>: the number the next \<open>n\<close> characters denote, and what follows.\<close>

definition parse_digits :: "nat \<Rightarrow> string \<Rightarrow> (nat \<times> string) option" where
  "parse_digits n p =
     (if n \<le> length p \<and> list_all is_digit (take n p)
      then Some (dec_val (take n p), drop n p) else None)"

text \<open>
  The end of \<open>parse_hh_mm_ss_ff\<close>: up to six digits are the microseconds, further digits
  are skipped. The result says whether the portion ends there; \<open>followed\<close> says whether more of the
  string comes after the portion (the sign of the offset).
\<close>

definition fraction :: "string \<Rightarrow> bool \<Rightarrow> (nat list \<times> nat \<times> bool) option" where
  "fraction p followed =
     (let to_parse = min 6 (length p) in
      case parse_digits to_parse p of
        None \<Rightarrow> None
      | Some (v, r) \<Rightarrow>
          Some ([], v * 10 ^ (6 - to_parse),
                (case dropWhile is_digit r of [] \<Rightarrow> followed | c # cs \<Rightarrow> True)))"

definition prepend :: "nat \<Rightarrow> (nat list \<times> nat \<times> bool) option \<Rightarrow> (nat list \<times> nat \<times> bool) option" where
  "prepend v r = map_option (\<lambda>(vs, us, trailing). (v # vs, us, trailing)) r"

text \<open>
  The loop of \<open>parse_hh_mm_ss_ff\<close> over hour, minute and second, with the number of
  components still to read: the components read, the microseconds, and whether
  something is left unread.
\<close>

fun components :: "nat \<Rightarrow> bool \<Rightarrow> string \<Rightarrow> bool \<Rightarrow> (nat list \<times> nat \<times> bool) option" where
  "components 0 has_separator p followed = fraction p followed"
| "components (Suc n) has_separator p followed =
     (case parse_digits 2 p of
        None \<Rightarrow> None
      | Some (v, r) \<Rightarrow>
          (case r of
             [] \<Rightarrow> Some ([v], 0, followed)
           | c # r' \<Rightarrow>
               if r' = [] then Some ([v], 0, True)
               else if has_separator \<and> c = CHR '':'' then
                 prepend v (components n has_separator r' followed)
               else if c = CHR ''.'' \<or> c = CHR '','' then prepend v (fraction r' followed)
               else if \<not> has_separator then
                 prepend v (components n has_separator (c # r') followed)
               else None))"

text \<open>The first component decides whether colons separate the components.\<close>

definition parse_hh_mm_ss_ff :: "string \<Rightarrow> bool \<Rightarrow> (nat list \<times> nat \<times> bool) option" where
  "parse_hh_mm_ss_ff p followed =
     components 3 (case drop 2 p of [] \<Rightarrow> False | c # r \<Rightarrow> c = CHR '':'') p followed"

definition seconds_of :: "nat list \<Rightarrow> nat" where
  "seconds_of vals =
     (case vals @ [0, 0, 0] of h # m # s # r \<Rightarrow> h * 3600 + m * 60 + s | _ \<Rightarrow> 0)"

definition is_tz_start :: "char \<Rightarrow> bool" where
  "is_tz_start c = (c = CHR ''Z'' \<or> c = CHR ''+'' \<or> c = CHR ''-'')"

text \<open>\<open>parse_isoformat_time\<close>: the components of the time, the microseconds, and the offset
  from UTC in microseconds if one is written. An offset of zero seconds is UTC, whatever
  its fraction (\<open>tzinfo_from_isoformat_results\<close>).\<close>

definition parse_isoformat_time :: "string \<Rightarrow> (nat list \<times> nat \<times> int option) option" where
  "parse_isoformat_time tstr =
     (let t = takeWhile (\<lambda>c. \<not> is_tz_start c) tstr;
          tz = dropWhile (\<lambda>c. \<not> is_tz_start c) tstr in
      case parse_hh_mm_ss_ff t (tz \<noteq> []) of
        None \<Rightarrow> None
      | Some (vals, us, trailing) \<Rightarrow>
          (case tz of
             [] \<Rightarrow> if trailing then None else Some (vals, us, None)
           | c # z \<Rightarrow>
               if c = CHR ''Z'' then (if z = [] then Some (vals, us, Some 0) else None)
               else
                 (case parse_hh_mm_ss_ff z False of
                    None \<Rightarrow> None
                  | Some (tzvals, tzus, tztrailing) \<Rightarrow>
                      if tztrailing then None
                      else if seconds_of tzvals = 0 then Some (vals, us, Some 0)
                      else Some (vals, us,
                             Some ((if c = CHR ''-'' then - 1 else 1)
                                   * int (seconds_of tzvals * 1000000 + tzus))))))"

text \<open>\<open>parse_isoformat_date\<close>, for a calendar date with or without hyphens.\<close>

definition parse_isoformat_date :: "string \<Rightarrow> (nat \<times> nat \<times> nat) option" where
  "parse_isoformat_date s =
     (case parse_digits 4 s of
        None \<Rightarrow> None
      | Some (y, p) \<Rightarrow>
          (let uses_separator = (case p of [] \<Rightarrow> False | c # r \<Rightarrow> c = CHR ''-'');
               p1 = (if uses_separator then tl p else p) in
           if (case p1 of [] \<Rightarrow> False | c # r \<Rightarrow> c = CHR ''W'') then None
           else
             (case parse_digits 2 p1 of
                None \<Rightarrow> None
              | Some (m, p2) \<Rightarrow>
                  if uses_separator \<and> (case p2 of [] \<Rightarrow> True | c # r \<Rightarrow> c \<noteq> CHR ''-'') then None
                  else
                    (case parse_digits 2 (if uses_separator then tl p2 else p2) of
                       None \<Rightarrow> None
                     | Some (d, p3) \<Rightarrow> Some (y, m, d)))))"

text \<open>\<open>_find_isoformat_datetime_separator\<close>, on a string of at least seven characters:
  where the date ends. \<open>None\<close> is a week date.\<close>

definition separator_location :: "string \<Rightarrow> nat option" where
  "separator_location s =
     (if length s = 7 then Some 7
      else if s ! 4 = CHR ''-'' then (if s ! 5 = CHR ''W'' then None else Some 10)
      else if s ! 4 = CHR ''W'' then None
      else Some 8)"

text \<open>The constructor of \<open>datetime\<close> raises \<open>ValueError\<close> on a field out of range.\<close>

definition new_datetime ::
  "nat \<Rightarrow> nat \<Rightarrow> nat \<Rightarrow> nat list \<Rightarrow> nat \<Rightarrow> int option \<Rightarrow> datetime option" where
  "new_datetime y mo d vals us tz =
     (case vals @ [0, 0, 0] of
        h # mi # sec # r \<Rightarrow>
          (let at = \<lparr>year = y, month = mo, day = d, hour = h, minute = mi, second = sec,
                     microsecond = us, utcoffset = tz\<rparr>
           in if valid_datetime at then Some at else None)
      | _ \<Rightarrow> None)"

definition fromisoformat :: "string \<Rightarrow> datetime option" where
  "fromisoformat s =
     (if length s < 7 then None
      else
        (case separator_location s of
           None \<Rightarrow> None
         | Some loc \<Rightarrow>
             (case parse_isoformat_date s of
                None \<Rightarrow> None
              | Some (y, mo, d) \<Rightarrow>
                  (case (if loc < length s then parse_isoformat_time (drop (Suc loc) s)
                         else Some ([], 0, None)) of
                     None \<Rightarrow> None
                   | Some (vals, us, tz) \<Rightarrow> new_datetime y mo d vals us tz))))"

section \<open>Storage file\<close>

text \<open>
  What \<open>json.load\<close> finds in the storage file: text that is not JSON (\<open>Malformed\<close>), or
  an object of the shape the store writes, in which any key may be absent and the
  counter, when present, is a natural number. A missing file is \<open>None\<close>.
\<close>

record task_data =
  td_id :: "string option"
  td_title :: "string option"
  td_description :: "string option"
  td_completed :: "bool option"
  td_created_at :: "string option"

record document =
  next_id_counter :: "nat option"
  doc_tasks :: "task_data list option"

datatype file_content = Malformed | Document document

section \<open>Task service\<close>

text \<open>
  The state of a \<open>TaskService\<close>: the dictionary \<open>_tasks\<close> in insertion order, the counter
  of \<open>_id_generator\<close>, and the content of the file at \<open>_storage_file\<close>. An operation
  returns its result, or the exception it raises, together with the state it leaves.
\<close>

record store =
  tasks :: "(string \<times> task) list"
  counter :: nat
  storage :: "file_content option"

subsection \<open>Persistence\<close>

text \<open>One record of the file: the three subscripts raise \<open>KeyError\<close>, the two \<open>get\<close>s default.\<close>

definition task_of_data :: "task_data \<Rightarrow> error + task" where
  "task_of_data d =
     (case td_id d of None \<Rightarrow> Inl (KeyError ''id'') | Some i \<Rightarrow>
     (case td_title d of None \<Rightarrow> Inl (KeyError ''title'') | Some t \<Rightarrow>
     (case td_created_at d of None \<Rightarrow> Inl (KeyError ''created_at'') | Some c \<Rightarrow>
     (case fromisoformat c of None \<Rightarrow> Inl ValueError | Some at \<Rightarrow>
        Inr (Task i t (case td_description d of None \<Rightarrow> [] | Some x \<Rightarrow> x)
                     (case td_completed d of None \<Rightarrow> False | Some b \<Rightarrow> b) at)))))"

text \<open>The loop over the records: each task is put into the dictionary before the next
  record is read, so an exception leaves the earlier ones there.\<close>

fun restore_tasks ::
  "task_data list \<Rightarrow> (string \<times> task) list \<Rightarrow> error option \<times> (string \<times> task) list" where
  "restore_tasks [] ts = (None, ts)"
| "restore_tasks (d # ds) ts =
     (case task_of_data d of
        Inl e \<Rightarrow> (Some e, ts)
      | Inr t \<Rightarrow> restore_tasks ds (AList.update (id_t t) t ts))"

text \<open>The body of the \<open>try\<close> block of \<open>_load\<close>, with the exception that leaves it, if any.\<close>

definition load_body :: "file_content \<Rightarrow> store \<Rightarrow> error option \<times> store" where
  "load_body c s =
     (case c of
        Malformed \<Rightarrow> (Some JSONDecodeError, s)
      | Document d \<Rightarrow>
          (case restore_tasks (case doc_tasks d of None \<Rightarrow> [] | Some l \<Rightarrow> l) (tasks s) of
             (Some e, ts) \<Rightarrow> (Some e, s\<lparr>tasks := ts\<rparr>)
           | (None, ts) \<Rightarrow>
               (None, s\<lparr>tasks := ts,
                        counter := (case next_id_counter d of None \<Rightarrow> 0 | Some n \<Rightarrow> n)\<rparr>)))"

text \<open>\<open>except (json.JSONDecodeError, KeyError): pass\<close>\<close>

fun caught :: "error \<Rightarrow> bool" where
  "caught JSONDecodeError = True"
| "caught (KeyError k) = True"
| "caught e = False"

definition load :: "store \<Rightarrow> error + store" where
  "load s =
     (case storage s of
        None \<Rightarrow> Inr s
      | Some c \<Rightarrow>
          (case load_body c s of
             (None, s') \<Rightarrow> Inr s'
           | (Some e, s') \<Rightarrow> if caught e then Inr s' else Inl e))"

text \<open>\<open>TaskService.__init__\<close> on a file with the given content.\<close>

definition init :: "file_content option \<Rightarrow> error + store" where
  "init f = load \<lparr>tasks = [], counter = 0, storage = f\<rparr>"

definition task_to_data :: "task \<Rightarrow> task_data" where
  "task_to_data t =
     \<lparr>td_id = Some (id_t t), td_title = Some (title t), td_description = Some (description t),
      td_completed = Some (completed t), td_created_at = Some (format_created_at t)\<rparr>"

definition save :: "store \<Rightarrow> store" where
  "save s =
     s\<lparr>storage := Some (Document
          \<lparr>next_id_counter = Some (counter s),
           doc_tasks = Some (map (\<lambda>kv. task_to_data (snd kv)) (tasks s))\<rparr>)\<rparr>"

subsection \<open>CRUD operations\<close>

text \<open>\<open>now\<close> is the reading of the clock that \<open>datetime.now\<close> gives the new task.\<close>

definition add :: "store \<Rightarrow> datetime \<Rightarrow> string \<Rightarrow> string \<Rightarrow> (error + task) \<times> store" where
  "add s now raw_title raw_description =
     (case validate_title raw_title of
        Inl e \<Rightarrow> (Inl e, s)
      | Inr ttl \<Rightarrow>
     (case validate_description raw_description of
        Inl e \<Rightarrow> (Inl e, s)
      | Inr descr \<Rightarrow>
          (let (task_id, c) = next_id (counter s);
               task = Task task_id ttl descr False now;
               s' = s\<lparr>counter := c, tasks := AList.update task_id task (tasks s)\<rparr>
           in (Inr task, save s'))))"

text \<open>
  \<open>get\<close> returns the stored object itself. \<open>get_ref\<close> is that reference: the key the
  object is stored under, with the object's present value.
\<close>

definition get_ref :: "store \<Rightarrow> string \<Rightarrow> error + (string \<times> task)" where
  "get_ref s raw_id =
     (case validate_task_id raw_id of
        Inl e \<Rightarrow> Inl e
      | Inr task_id \<Rightarrow>
          (case map_of (tasks s) task_id of
             None \<Rightarrow> Inl (TaskNotFoundError task_id)
           | Some task \<Rightarrow> Inr (task_id, task)))"

definition get :: "store \<Rightarrow> string \<Rightarrow> error + task" where
  "get s raw_id = map_sum (\<lambda>e. e) snd (get_ref s raw_id)"

definition list_all_tasks :: "store \<Rightarrow> task list" where
  "list_all_tasks s = sort_key id_t (map snd (tasks s))"

text \<open>An assignment to a field of the object behind a reference.\<close>

definition assign :: "store \<Rightarrow> string \<Rightarrow> task \<Rightarrow> store" where
  "assign s k task = s\<lparr>tasks := AList.update k task (tasks s)\<rparr>"

definition update ::
  "store \<Rightarrow> string \<Rightarrow> string option \<Rightarrow> string option \<Rightarrow> (error + task) \<times> store" where
  "update s raw_id new_title new_description =
     (if new_title = None \<and> new_description = None then (Inl NoChangesSpecifiedError, s)
      else
        (case get_ref s raw_id of
           Inl e \<Rightarrow> (Inl e, s)
         | Inr (k, task) \<Rightarrow>
             (case (case new_title of
                      None \<Rightarrow> Inr (task, s)
                    | Some t \<Rightarrow>
                        (case validate_title t of
                           Inl e \<Rightarrow> Inl e
                         | Inr v \<Rightarrow> Inr (task\<lparr>title := v\<rparr>, assign s k (task\<lparr>title := v\<rparr>)))) of
                Inl e \<Rightarrow> (Inl e, s)
              | Inr (task1, s1) \<Rightarrow>
                  (case (case new_description of
                           None \<Rightarrow> Inr (task1, s1)
                         | Some d \<Rightarrow>
                             (case validate_description d of
                                Inl e \<Rightarrow> Inl e
                              | Inr v \<Rightarrow>
                                  Inr (task1\<lparr>description := v\<rparr>,
                                       assign s1 k (task1\<lparr>description := v\<rparr>)))) of
                     Inl e \<Rightarrow> (Inl e, s1)
                   | Inr (task2, s2) \<Rightarrow> (Inr task2, save s2)))))"

definition delete :: "store \<Rightarrow> string \<Rightarrow> (error + task) \<times> store" where
  "delete s raw_id =
     (case validate_task_id raw_id of
        Inl e \<Rightarrow> (Inl e, s)
      | Inr task_id \<Rightarrow>
          (case map_of (tasks s) task_id of
             None \<Rightarrow> (Inl (TaskNotFoundError task_id), s)
           | Some task \<Rightarrow> (Inr task, save (s\<lparr>tasks := AList.delete task_id (tasks s)\<rparr>))))"

subsection \<open>State operations\<close>

definition mark_complete :: "store \<Rightarrow> string \<Rightarrow> (error + task \<times> bool) \<times> store" where
  "mark_complete s raw_id =
     (case get_ref s raw_id of
        Inl e \<Rightarrow> (Inl e, s)
      | Inr (k, task) \<Rightarrow>
          if completed task then (Inr (task, False), s)
          else (let task' = task\<lparr>completed := True\<rparr>
                in (Inr (task', True), save (assign s k task'))))"

definition mark_incomplete :: "store \<Rightarrow> string \<Rightarrow> (error + task \<times> bool) \<times> store" where
  "mark_incomplete s raw_id =
     (case get_ref s raw_id of
        Inl e \<Rightarrow> (Inl e, s)
      | Inr (k, task) \<Rightarrow>
          if \<not> completed task then (Inr (task, False), s)
          else (let task' = task\<lparr>completed := False\<rparr>
                in (Inr (task', True), save (assign s k task'))))"

subsection \<open>Query operations\<close>

definition list_pending :: "store \<Rightarrow> task list" where
  "list_pending s = filter (\<lambda>t. \<not> completed t) (list_all_tasks s)"

definition list_completed :: "store \<Rightarrow> task list" where
  "list_completed s = filter completed (list_all_tasks s)"

definition count_tasks :: "store \<Rightarrow> nat" where
  "count_tasks s = length (tasks s)"

section \<open>Sequences of operations\<close>

text \<open>A call of one of the mutating operations, with its arguments.\<close>

datatype cmd =
    Add datetime string string
  | Update string "string option" "string option"
  | Delete string
  | MarkComplete string
  | MarkIncomplete string

fun exec :: "store \<Rightarrow> cmd \<Rightarrow> (error + task) \<times> store" where
  "exec s (Add now t d) = add s now t d"
| "exec s (Update i t d) = update s i t d"
| "exec s (Delete i) = delete s i"
| "exec s (MarkComplete i) = apfst (map_sum (\<lambda>e. e) fst) (mark_complete s i)"
| "exec s (MarkIncomplete i) = apfst (map_sum (\<lambda>e. e) fst) (mark_incomplete s i)"

fun run :: "store \<Rightarrow> cmd list \<Rightarrow> store" where
  "run s [] = s"
| "run s (c # cs) = run (snd (exec s c)) cs"

fun is_add :: "cmd \<Rightarrow> bool" where
  "is_add (Add now t d) = True"
| "is_add c = False"

text \<open>The tasks returned by the calls of \<open>add\<close> that succeed, in the order of the calls.\<close>

fun added :: "store \<Rightarrow> cmd list \<Rightarrow> task list" where
  "added s [] = []"
| "added s (c # cs) =
     (case fst (exec s c) of
        Inr t \<Rightarrow> (if is_add c then [t] else [])
      | Inl e \<Rightarrow> []) @ added (snd (exec s c)) cs"

text \<open>The clock readings in a sequence of calls are what \<open>datetime.now()\<close> returns:
  naive dates and times.\<close>

fun clock_ok :: "cmd \<Rightarrow> bool" where
  "clock_ok (Add now t d) = (valid_datetime now \<and> utcoffset now = None)"
| "clock_ok c = True"

text \<open>
  The stores that can exist: one is constructed on a file, and the mutating operations
  are called on it.
\<close>

inductive reachable :: "store \<Rightarrow> bool" where
  constructed: "init f = Inr s \<Longrightarrow> reachable s"
| step: "reachable s \<Longrightarrow> clock_ok c \<Longrightarrow> reachable (snd (exec s c))"

section \<open>Properties of stores\<close>

text \<open>The dictionary has one entry per key, and each task is stored under its own id,
  which is in upper case.\<close>

definition keyed :: "store \<Rightarrow> bool" where
  "keyed s = (distinct (map fst (tasks s))
              \<and> list_all (\<lambda>kv. id_t (snd kv) = fst kv \<and> upper (fst kv) = fst kv) (tasks s))"

definition title_ok :: "string \<Rightarrow> bool" where
  "title_ok t = (strip t \<noteq> [] \<and> length t \<le> MAX_TITLE_LENGTH)"

definition description_ok :: "string \<Rightarrow> bool" where
  "description_ok d = (length d \<le> MAX_DESCRIPTION_LENGTH)"

definition store_inv :: "store \<Rightarrow> bool" where
  "store_inv s = (keyed s
                  \<and> list_all (\<lambda>kv. title_ok (title (snd kv)) \<and> description_ok (description (snd kv)))
                      (tasks s))"

text \<open>The records of a file, and the same constraints on the fields they give.\<close>

definition records :: "file_content option \<Rightarrow> task_data list" where
  "records f =
     (case f of
        Some (Document d) \<Rightarrow> (case doc_tasks d of None \<Rightarrow> [] | Some l \<Rightarrow> l)
      | _ \<Rightarrow> [])"

definition record_ok :: "task_data \<Rightarrow> bool" where
  "record_ok d = ((case td_title d of None \<Rightarrow> True | Some t \<Rightarrow> title_ok t)
                  \<and> (case td_description d of None \<Rightarrow> True | Some x \<Rightarrow> description_ok x))"

definition complete_record :: "task_data \<Rightarrow> bool" where
  "complete_record d = (td_id d \<noteq> None \<and> td_title d \<noteq> None \<and> td_created_at d \<noteq> None)"

text \<open>The file holds the counter and, in the order of the dictionary, one record for
  each task in memory with its five fields.\<close>

definition persisted :: "store \<Rightarrow> bool" where
  "persisted s =
     (storage s = Some (Document
        \<lparr>next_id_counter = Some (counter s),
         doc_tasks = Some (map (\<lambda>kv.
           \<lparr>td_id = Some (id_t (snd kv)), td_title = Some (title (snd kv)),
            td_description = Some (description (snd kv)),
            td_completed = Some (completed (snd kv)),
            td_created_at = Some (format_created_at (snd kv))\<rparr>) (tasks s))\<rparr>))"


text \<open>A task with its timestamp cut to whole seconds and without its offset.\<close>

definition naive_seconds :: "task \<Rightarrow> task" where
  "naive_seconds t = t\<lparr>created_at := (created_at t)\<lparr>microsecond := 0, utcoffset := None\<rparr>\<rparr>"

text \<open>No stored id is one that the allocator has yet to issue.\<close>

definition allocated :: "store \<Rightarrow> bool" where
  "allocated s = (\<forall>k \<in> set (map fst (tasks s)). \<forall>n > counter s. k \<noteq> format_id n)"

section \<open>Example stores\<close>

definition half_past_ten :: datetime where
  "half_past_ten =
     \<lparr>year = 2025, month = 12, day = 29, hour = 10, minute = 30, second = 0, microsecond = 0,
      utcoffset = None\<rparr>"

definition just_after :: datetime where
  "just_after = half_past_ten\<lparr>microsecond := 123456\<rparr>"

definition empty_store :: store where
  "empty_store = \<lparr>tasks = [], counter = 0, storage = None\<rparr>"

text \<open>The fixture \<open>service_with_tasks\<close> of the unit tests.\<close>

definition fixture_cmds :: "cmd list" where
  "fixture_cmds =
     [Add half_past_ten ''Buy groceries'' ''Milk, eggs, bread'',
      Add half_past_ten ''Call mom'' [],
      Add half_past_ten ''Pay bills'' ''Electric and water'',
      MarkComplete ''T002'']"

definition service_with_tasks :: store where
  "service_with_tasks = run empty_store fixture_cmds"

text \<open>A file whose second record has no title, and one whose timestamp is no date.\<close>

definition torn_file :: file_content where
  "torn_file = Document
     \<lparr>next_id_counter = Some 2,
      doc_tasks = Some
        [\<lparr>td_id = Some ''T001'', td_title = Some ''Buy groceries'',
          td_description = Some ''Milk, eggs, bread'', td_completed = Some False,
          td_created_at = Some ''2025-12-29T10:30:00''\<rparr>,
         \<lparr>td_id = Some ''T002'', td_title = None, td_description = Some [],
          td_completed = Some True, td_created_at = Some ''2025-12-29T10:30:00''\<rparr>]\<rparr>"

definition undated_file :: file_content where
  "undated_file = Document
     \<lparr>next_id_counter = Some 1,
      doc_tasks = Some
        [\<lparr>td_id = Some ''T001'', td_title = Some ''Buy groceries'',
          td_description = Some [], td_completed = Some False,
          td_created_at = Some ''yesterday''\<rparr>]\<rparr>"

text \<open>A store that has issued 998 ids and holds no task, and two more tasks added to it.\<close>

definition late_file :: file_content where
  "late_file = Document \<lparr>next_id_counter = Some 998, doc_tasks = Some []\<rparr>"

definition late_store :: store where
  "late_store = \<lparr>tasks = [], counter = 998, storage = Some late_file\<rparr>"

definition late_cmds :: "cmd list" where
  "late_cmds = [Add half_past_ten ''Renew passport'' [], Add half_past_ten ''Book flights'' []]"

text \<open>A description of 1001 characters.\<close>

definition long_description :: string where
  "long_description = replicate 1001 (CHR ''x'')"

text \<open>A record with the three required keys only, and a file that holds it and no counter.\<close>

definition bare_record :: task_data where
  "bare_record =
     \<lparr>td_id = Some ''t007'', td_title = Some ''Water plants'', td_description = None,
      td_completed = None, td_created_at = Some ''2025-12-29T10:30:00''\<rparr>"

definition bare_file :: file_content where
  "bare_file = Document \<lparr>next_id_counter = None, doc_tasks = Some [bare_record]\<rparr>"


text \<open>A file whose only record has an empty title, and the store constructed on it.\<close>

definition untitled_file :: file_content where
  "untitled_file = Document
     \<lparr>next_id_counter = Some 1,
      doc_tasks = Some
        [\<lparr>td_id = Some ''T001'', td_title = Some [], td_description = Some [],
          td_completed = Some False, td_created_at = Some ''2025-12-29T10:30:00''\<rparr>]\<rparr>"

definition untitled_store :: store where
  "untitled_store =
     \<lparr>tasks = [(''T001'', \<lparr>id_t = ''T001'', title = [], description = [], completed = False,
                            created_at = half_past_ten\<rparr>)],
      counter = 1, storage = Some untitled_file\<rparr>"

text \<open>A file with one task and no counter, and the store constructed on it.\<close>

definition uncounted_file :: file_content where
  "uncounted_file = Document
     \<lparr>next_id_counter = None,
      doc_tasks = Some
        [\<lparr>td_id = Some ''T001'', td_title = Some ''Buy groceries'', td_description = Some [],
          td_completed = Some False, td_created_at = Some ''2025-12-29T10:30:00''\<rparr>]\<rparr>"

definition uncounted_store :: store where
  "uncounted_store =
     \<lparr>tasks = [(''T001'', \<lparr>id_t = ''T001'', title = ''Buy groceries'', description = [],
                            completed = False, created_at = half_past_ten\<rparr>)],
      counter = 0, storage = Some uncounted_file\<rparr>"






text \<open>A file with the counter 8 and two records: the one with the three required keys
  only, and a second one.\<close>

definition second_record :: task_data where
  "second_record =
     \<lparr>td_id = Some ''T008'', td_title = Some ''Feed cat'', td_description = Some ''Twice'',
      td_completed = Some True, td_created_at = Some ''2025-12-29T10:30:00''\<rparr>"

definition two_record_file :: "task_data \<Rightarrow> file_content" where
  "two_record_file r = Document \<lparr>next_id_counter = Some 8, doc_tasks = Some [bare_record, r]\<rparr>"

section \<open>Characters and identifiers\<close>

lemma upper_char_cases:
  "c \<in> set lowercase \<and> upper_char c \<in> set uppercase \<or> c \<notin> set lowercase \<and> upper_char c = c"
  by (simp add: upper_char_def lowercase_def uppercase_def)

lemma upper_char_fix: "c \<notin> set lowercase \<Longrightarrow> upper_char c = c"
  using upper_char_cases [of c] by blast

lemma upper_char_T: "(upper_char c = CHR ''T'') = (c = CHR ''T'' \<or> c = CHR ''t'')"
  by (simp add: upper_char_def lowercase_def uppercase_def)

lemma upper_char_t: "upper_char c \<noteq> CHR ''t''"
  by (simp add: upper_char_def lowercase_def uppercase_def)

lemma is_digit_upper_char: "is_digit (upper_char c) = is_digit c"
  by (simp add: upper_char_def lowercase_def uppercase_def is_digit_def)

lemma digit_not_lowercase: "is_digit c \<Longrightarrow> c \<notin> set lowercase"
  unfolding is_digit_def lowercase_def by (elim rev_mp) simp

lemma upper_char_digit: "is_digit c \<Longrightarrow> upper_char c = c"
  by (rule upper_char_fix) (rule digit_not_lowercase)

lemma upper_char_idem: "upper_char (upper_char c) = upper_char c"
  by (simp add: upper_char_def lowercase_def uppercase_def)

lemma upper_idem: "upper (upper s) = upper s"
  by (simp add: upper_def upper_char_idem)

lemma upper_digits: "list_all is_digit ds \<Longrightarrow> upper ds = ds"
  by (induction ds) (simp_all add: upper_def upper_char_digit)

lemma list_all_digit_upper: "list_all is_digit (upper ds) = list_all is_digit ds"
  by (induction ds) (simp_all add: upper_def is_digit_upper_char)

lemma matches_id_upper: "matches_id (upper raw) = matches_id raw"
proof (cases raw)
  case Nil
  then show ?thesis by (simp add: upper_def)
next
  case (Cons c ds)
  have "matches_id (upper raw) = matches_id (upper_char c # upper ds)"
    using Cons by (simp add: upper_def)
  also have "\<dots> = matches_id raw"
    using Cons list_all_digit_upper [of ds]
    by (auto simp: upper_char_T upper_char_t upper_def)
  finally show ?thesis .
qed

lemma validate_task_id_upper: "validate_task_id (upper raw) = validate_task_id raw"
  by (simp add: validate_task_id_def matches_id_upper upper_idem)

lemma matches_id_iff:
  "matches_id raw =
     (\<exists>ds. ds \<noteq> [] \<and> list_all is_digit ds \<and> (raw = CHR ''T'' # ds \<or> raw = CHR ''t'' # ds))"
  by (cases raw) auto

lemma upper_T_digits:
  "list_all is_digit ds \<Longrightarrow> upper (CHR ''T'' # ds) = CHR ''T'' # ds"
  "list_all is_digit ds \<Longrightarrow> upper (CHR ''t'' # ds) = CHR ''T'' # ds"
proof -
  have "upper_char CHR ''T'' = CHR ''T''" "upper_char CHR ''t'' = CHR ''T''"
    by (simp_all add: upper_char_def lowercase_def uppercase_def)
  then show "list_all is_digit ds \<Longrightarrow> upper (CHR ''T'' # ds) = CHR ''T'' # ds"
    "list_all is_digit ds \<Longrightarrow> upper (CHR ''t'' # ds) = CHR ''T'' # ds"
    using upper_digits [of ds] by (simp_all add: upper_def)
qed

lemma get_ref_upper: "get_ref s (upper raw) = get_ref s raw"
  by (simp add: get_ref_def validate_task_id_upper)

lemma validate_task_id_Inr:
  "validate_task_id raw = Inr k \<Longrightarrow> k = upper raw \<and> upper k = k \<and> matches_id raw"
  by (auto simp: validate_task_id_def upper_idem split: if_splits)

lemma service_with_tasks_value:
  "service_with_tasks =
     \<lparr>tasks =
        [(''T001'', \<lparr>id_t = ''T001'', title = ''Buy groceries'',
                     description = ''Milk, eggs, bread'', completed = False,
                     created_at = half_past_ten\<rparr>),
         (''T002'', \<lparr>id_t = ''T002'', title = ''Call mom'', description = [],
                     completed = True, created_at = half_past_ten\<rparr>),
         (''T003'', \<lparr>id_t = ''T003'', title = ''Pay bills'',
                     description = ''Electric and water'', completed = False,
                     created_at = half_past_ten\<rparr>)],
      counter = 3,
      storage = Some (Document
        \<lparr>next_id_counter = Some 3,
         doc_tasks = Some
           [\<lparr>td_id = Some ''T001'', td_title = Some ''Buy groceries'',
             td_description = Some ''Milk, eggs, bread'', td_completed = Some False,
             td_created_at = Some ''2025-12-29T10:30:00''\<rparr>,
            \<lparr>td_id = Some ''T002'', td_title = Some ''Call mom'',
             td_description = Some [], td_completed = Some True,
             td_created_at = Some ''2025-12-29T10:30:00''\<rparr>,
            \<lparr>td_id = Some ''T003'', td_title = Some ''Pay bills'',
             td_description = Some ''Electric and water'', td_completed = Some False,
             td_created_at = Some ''2025-12-29T10:30:00''\<rparr>]\<rparr>)\<rparr>"
  by code_simp

section \<open>Reading and writing a stored task\<close>

lemma persisted_save: "persisted (save s)"
  by (simp add: persisted_def save_def task_to_data_def)

lemma tasks_save: "tasks (save s) = tasks s"
  by (simp add: save_def)

lemma counter_save: "counter (save s) = counter s"
  by (simp add: save_def)

lemma get_ref_save: "get_ref (save s) raw = get_ref s raw"
  by (simp add: get_ref_def tasks_save split: sum.splits)

lemma get_Inr:
  "(get s raw = Inr t) = (map_of (tasks s) (upper raw) = Some t \<and> matches_id raw)"
  by (auto simp: get_def get_ref_def validate_task_id_def split: option.splits if_splits)

lemma get_ref_Inr:
  "(get_ref s raw = Inr (k, t)) = (k = upper raw \<and> map_of (tasks s) k = Some t \<and> matches_id raw)"
  by (auto simp: get_ref_def validate_task_id_def split: option.splits if_splits)


lemma get_assign:
  "matches_id raw \<Longrightarrow> get (assign s (upper raw) t) raw = Inr t"
  by (simp add: get_Inr assign_def AList.update_conv')






section \<open>Completion flag\<close>






section \<open>Operations on an id in lower or mixed case\<close>

lemma get_ref_found:
  assumes "validate_task_id raw = Inr i" "map_of (tasks s) i = Some t"
  shows "get_ref s raw = Inr (i, t)"
  using assms by (simp add: get_ref_def)

lemma get_ref_missing:
  assumes "validate_task_id raw = Inr i" "map_of (tasks s) i = None"
  shows "get_ref s raw = Inl (TaskNotFoundError i)"
  using assms by (simp add: get_ref_def)

lemma missing_id:
  assumes "validate_task_id raw = Inr i" "map_of (tasks s) i = None"
  shows "get s raw = Inl (TaskNotFoundError i)"
    and "delete s raw = (Inl (TaskNotFoundError i), s)"
    and "mark_complete s raw = (Inl (TaskNotFoundError i), s)"
    and "mark_incomplete s raw = (Inl (TaskNotFoundError i), s)"
    and "nt \<noteq> None \<or> nd \<noteq> None \<Longrightarrow> update s raw nt nd = (Inl (TaskNotFoundError i), s)"
  using get_ref_missing [OF assms] assms
  by (auto simp: get_def delete_def mark_complete_def mark_incomplete_def update_def)

lemma delete_found:
  assumes "validate_task_id raw = Inr i" "map_of (tasks s) i = Some t"
  shows "fst (delete s raw) = Inr t"
    and "map_of (tasks (snd (delete s raw))) = (map_of (tasks s))(i := None)"
    and "counter (snd (delete s raw)) = counter s"
    and "persisted (snd (delete s raw))"
  using assms
  by (simp_all add: delete_def tasks_save counter_save persisted_save AList.delete_conv')

lemma mark_complete_found:
  assumes "validate_task_id raw = Inr i" "map_of (tasks s) i = Some t"
  shows "fst (mark_complete s raw) = Inr (t\<lparr>completed := True\<rparr>, \<not> completed t)"
    and "map_of (tasks (snd (mark_complete s raw))) = (map_of (tasks s))(i \<mapsto> t\<lparr>completed := True\<rparr>)"
    and "counter (snd (mark_complete s raw)) = counter s"
proof -
  note r = get_ref_found [OF assms]
  have idem: "(map_of (tasks s))(i \<mapsto> t\<lparr>completed := True\<rparr>) = map_of (tasks s)"
    if "completed t"
  proof -
    have "t\<lparr>completed := True\<rparr> = t"
      using that by simp
    then show ?thesis
      using assms(2) by (simp add: fun_upd_idem)
  qed
  show "fst (mark_complete s raw) = Inr (t\<lparr>completed := True\<rparr>, \<not> completed t)"
    using r by (simp add: mark_complete_def Let_def)
  show "map_of (tasks (snd (mark_complete s raw))) = (map_of (tasks s))(i \<mapsto> t\<lparr>completed := True\<rparr>)"
    using r idem
    by (simp add: mark_complete_def Let_def tasks_save assign_def AList.update_conv')
  show "counter (snd (mark_complete s raw)) = counter s"
    using r by (simp add: mark_complete_def Let_def counter_save assign_def)
qed

lemma mark_incomplete_found:
  assumes "validate_task_id raw = Inr i" "map_of (tasks s) i = Some t"
  shows "fst (mark_incomplete s raw) = Inr (t\<lparr>completed := False\<rparr>, completed t)"
    and "map_of (tasks (snd (mark_incomplete s raw))) = (map_of (tasks s))(i \<mapsto> t\<lparr>completed := False\<rparr>)"
    and "counter (snd (mark_incomplete s raw)) = counter s"
proof -
  note r = get_ref_found [OF assms]
  have idem: "(map_of (tasks s))(i \<mapsto> t\<lparr>completed := False\<rparr>) = map_of (tasks s)"
    if "\<not> completed t"
  proof -
    have "t\<lparr>completed := False\<rparr> = t"
      using that by simp
    then show ?thesis
      using assms(2) by (simp add: fun_upd_idem)
  qed
  show "fst (mark_incomplete s raw) = Inr (t\<lparr>completed := False\<rparr>, completed t)"
    using r by (simp add: mark_incomplete_def Let_def)
  show "map_of (tasks (snd (mark_incomplete s raw))) = (map_of (tasks s))(i \<mapsto> t\<lparr>completed := False\<rparr>)"
    using r idem
    by (simp add: mark_incomplete_def Let_def tasks_save assign_def AList.update_conv')
  show "counter (snd (mark_incomplete s raw)) = counter s"
    using r by (simp add: mark_incomplete_def Let_def counter_save assign_def)
qed

lemma update_found:
  assumes "validate_task_id raw = Inr i" "map_of (tasks s) i = Some t"
    and "validate_title x = Inr v" "validate_description y = Inr w"
  shows "fst (update s raw (Some x) (Some y)) = Inr (t\<lparr>title := v, description := w\<rparr>)"
    and "map_of (tasks (snd (update s raw (Some x) (Some y))))
           = (map_of (tasks s))(i \<mapsto> t\<lparr>title := v, description := w\<rparr>)"
    and "fst (update s raw (Some x) None) = Inr (t\<lparr>title := v\<rparr>)"
    and "map_of (tasks (snd (update s raw (Some x) None))) = (map_of (tasks s))(i \<mapsto> t\<lparr>title := v\<rparr>)"
    and "fst (update s raw None (Some y)) = Inr (t\<lparr>description := w\<rparr>)"
    and "map_of (tasks (snd (update s raw None (Some y))))
           = (map_of (tasks s))(i \<mapsto> t\<lparr>description := w\<rparr>)"
    and "counter (snd (update s raw (Some x) (Some y))) = counter s"
    and "persisted (snd (update s raw (Some x) (Some y)))"
    and "persisted (snd (update s raw (Some x) None))"
    and "persisted (snd (update s raw None (Some y)))"
  using get_ref_found [OF assms(1,2)] assms(3,4)
  by (simp_all add: update_def tasks_save counter_save persisted_save assign_def
      AList.update_conv')

text \<open>
  C7. \<open>validate_task_id\<close> succeeds exactly on the letter T, in either case, followed by
  one or more ASCII digits, and then returns the input in upper case; \<open>T1\<close> and
  \<open>T12345\<close> succeed, and \<open>T\<close>, \<open>Tabc\<close>, \<open>X001\<close>, \<open>001\<close> and the empty string fail with
  \<open>InvalidIDFormatError\<close>. Every operation that takes an id does on an id in lower or
  mixed case what it does on the id in upper case, and it works on the task stored
  under the upper-case id \<open>i\<close>. When no task is stored under \<open>i\<close>, each operation raises
  \<open>TaskNotFoundError\<close> for \<open>i\<close> and leaves the state. When the task \<open>t\<close> is stored under
  \<open>i\<close>: \<open>get\<close> returns \<open>t\<close>; \<open>delete\<close> returns \<open>t\<close> and leaves the dictionary without \<open>i\<close> and
  otherwise as it was; \<open>mark_complete\<close> and \<open>mark_incomplete\<close> return \<open>t\<close> with the flag set
  or cleared, say whether that changed it, and leave that task under \<open>i\<close>; \<open>update\<close> with
  a title and a description that validate returns \<open>t\<close> with the validated values and
  leaves that task under \<open>i\<close>, and likewise with only one of the two. The other entries
  and the counter stay, and after \<open>delete\<close> and \<open>update\<close> the file holds the new state.
\<close>

theorem validate_task_id_case_insensitive:
  "(ds \<noteq> [] \<and> list_all is_digit ds \<longrightarrow>
      validate_task_id (CHR ''T'' # ds) = Inr (CHR ''T'' # ds) \<and>
      validate_task_id (CHR ''t'' # ds) = Inr (CHR ''T'' # ds))
   \<and> ((\<nexists>ds. ds \<noteq> [] \<and> list_all is_digit ds \<and> (raw = CHR ''T'' # ds \<or> raw = CHR ''t'' # ds)) \<longrightarrow>
      validate_task_id raw = Inl InvalidIDFormatError)
   \<and> validate_task_id ''T1'' = Inr ''T1''
   \<and> validate_task_id ''T12345'' = Inr ''T12345''
   \<and> validate_task_id ''T'' = Inl InvalidIDFormatError
   \<and> validate_task_id ''Tabc'' = Inl InvalidIDFormatError
   \<and> validate_task_id ''X001'' = Inl InvalidIDFormatError
   \<and> validate_task_id ''001'' = Inl InvalidIDFormatError
   \<and> validate_task_id [] = Inl InvalidIDFormatError
   \<and> get s raw = get s (upper raw)
   \<and> update s raw nt nd = update s (upper raw) nt nd
   \<and> delete s raw = delete s (upper raw)
   \<and> mark_complete s raw = mark_complete s (upper raw)
   \<and> mark_incomplete s raw = mark_incomplete s (upper raw)
   \<and> (validate_task_id raw = Inr i \<longrightarrow>
        i = upper raw \<and>
        get s raw = (case map_of (tasks s) i of
                       None \<Rightarrow> Inl (TaskNotFoundError i) | Some t \<Rightarrow> Inr t))
   \<and> (validate_task_id raw = Inr i \<and> map_of (tasks s) i = None \<longrightarrow>
        get s raw = Inl (TaskNotFoundError i)
        \<and> delete s raw = (Inl (TaskNotFoundError i), s)
        \<and> mark_complete s raw = (Inl (TaskNotFoundError i), s)
        \<and> mark_incomplete s raw = (Inl (TaskNotFoundError i), s)
        \<and> (nt \<noteq> None \<or> nd \<noteq> None \<longrightarrow> update s raw nt nd = (Inl (TaskNotFoundError i), s)))
   \<and> (validate_task_id raw = Inr i \<and> map_of (tasks s) i = Some t \<longrightarrow>
        get s raw = Inr t
        \<and> fst (delete s raw) = Inr t
        \<and> map_of (tasks (snd (delete s raw))) = (map_of (tasks s))(i := None)
        \<and> counter (snd (delete s raw)) = counter s
        \<and> persisted (snd (delete s raw))
        \<and> fst (mark_complete s raw) = Inr (t\<lparr>completed := True\<rparr>, \<not> completed t)
        \<and> map_of (tasks (snd (mark_complete s raw)))
            = (map_of (tasks s))(i \<mapsto> t\<lparr>completed := True\<rparr>)
        \<and> counter (snd (mark_complete s raw)) = counter s
        \<and> fst (mark_incomplete s raw) = Inr (t\<lparr>completed := False\<rparr>, completed t)
        \<and> map_of (tasks (snd (mark_incomplete s raw)))
            = (map_of (tasks s))(i \<mapsto> t\<lparr>completed := False\<rparr>)
        \<and> counter (snd (mark_incomplete s raw)) = counter s
        \<and> (validate_title x = Inr v \<and> validate_description y = Inr w \<longrightarrow>
             fst (update s raw (Some x) (Some y)) = Inr (t\<lparr>title := v, description := w\<rparr>)
             \<and> map_of (tasks (snd (update s raw (Some x) (Some y))))
                 = (map_of (tasks s))(i \<mapsto> t\<lparr>title := v, description := w\<rparr>)
             \<and> fst (update s raw (Some x) None) = Inr (t\<lparr>title := v\<rparr>)
             \<and> map_of (tasks (snd (update s raw (Some x) None)))
                 = (map_of (tasks s))(i \<mapsto> t\<lparr>title := v\<rparr>)
             \<and> fst (update s raw None (Some y)) = Inr (t\<lparr>description := w\<rparr>)
             \<and> map_of (tasks (snd (update s raw None (Some y))))
                 = (map_of (tasks s))(i \<mapsto> t\<lparr>description := w\<rparr>)
             \<and> counter (snd (update s raw (Some x) (Some y))) = counter s
             \<and> persisted (snd (update s raw (Some x) (Some y)))
             \<and> persisted (snd (update s raw (Some x) None))
             \<and> persisted (snd (update s raw None (Some y)))))"
proof -
  have a: "ds \<noteq> [] \<and> list_all is_digit ds \<longrightarrow>
      validate_task_id (CHR ''T'' # ds) = Inr (CHR ''T'' # ds) \<and>
      validate_task_id (CHR ''t'' # ds) = Inr (CHR ''T'' # ds)"
    by (simp add: validate_task_id_def upper_T_digits)
  have b: "(\<nexists>ds. ds \<noteq> [] \<and> list_all is_digit ds \<and> (raw = CHR ''T'' # ds \<or> raw = CHR ''t'' # ds)) \<longrightarrow>
      validate_task_id raw = Inl InvalidIDFormatError"
    unfolding validate_task_id_def matches_id_iff by auto
  have c: "validate_task_id ''T1'' = Inr ''T1''"
    "validate_task_id ''T12345'' = Inr ''T12345''"
    "validate_task_id ''T'' = Inl InvalidIDFormatError"
    "validate_task_id ''Tabc'' = Inl InvalidIDFormatError"
    "validate_task_id ''X001'' = Inl InvalidIDFormatError"
    "validate_task_id ''001'' = Inl InvalidIDFormatError"
    "validate_task_id [] = Inl InvalidIDFormatError"
    by code_simp+
  have d: "get s raw = get s (upper raw)"
    "update s raw nt nd = update s (upper raw) nt nd"
    "delete s raw = delete s (upper raw)"
    "mark_complete s raw = mark_complete s (upper raw)"
    "mark_incomplete s raw = mark_incomplete s (upper raw)"
    by (simp_all add: get_def update_def delete_def mark_complete_def mark_incomplete_def
        get_ref_upper validate_task_id_upper)
  have e: "validate_task_id raw = Inr i \<longrightarrow>
        i = upper raw \<and>
        get s raw = (case map_of (tasks s) i of
                       None \<Rightarrow> Inl (TaskNotFoundError i) | Some t \<Rightarrow> Inr t)"
    by (auto simp: get_def get_ref_def validate_task_id_def split: option.splits if_splits)
  have f: "validate_task_id raw = Inr i \<and> map_of (tasks s) i = None \<longrightarrow>
        get s raw = Inl (TaskNotFoundError i)
        \<and> delete s raw = (Inl (TaskNotFoundError i), s)
        \<and> mark_complete s raw = (Inl (TaskNotFoundError i), s)
        \<and> mark_incomplete s raw = (Inl (TaskNotFoundError i), s)
        \<and> (nt \<noteq> None \<or> nd \<noteq> None \<longrightarrow> update s raw nt nd = (Inl (TaskNotFoundError i), s))"
  proof (intro impI, elim conjE)
    assume h: "validate_task_id raw = Inr i" "map_of (tasks s) i = None"
    show "get s raw = Inl (TaskNotFoundError i)
        \<and> delete s raw = (Inl (TaskNotFoundError i), s)
        \<and> mark_complete s raw = (Inl (TaskNotFoundError i), s)
        \<and> mark_incomplete s raw = (Inl (TaskNotFoundError i), s)
        \<and> (nt \<noteq> None \<or> nd \<noteq> None \<longrightarrow> update s raw nt nd = (Inl (TaskNotFoundError i), s))"
      using missing_id(1-4) [OF h] missing_id(5) [OF h, of nt nd] by blast
  qed
  have g: "validate_task_id raw = Inr i \<and> map_of (tasks s) i = Some t \<longrightarrow>
        get s raw = Inr t
        \<and> fst (delete s raw) = Inr t
        \<and> map_of (tasks (snd (delete s raw))) = (map_of (tasks s))(i := None)
        \<and> counter (snd (delete s raw)) = counter s
        \<and> persisted (snd (delete s raw))
        \<and> fst (mark_complete s raw) = Inr (t\<lparr>completed := True\<rparr>, \<not> completed t)
        \<and> map_of (tasks (snd (mark_complete s raw)))
            = (map_of (tasks s))(i \<mapsto> t\<lparr>completed := True\<rparr>)
        \<and> counter (snd (mark_complete s raw)) = counter s
        \<and> fst (mark_incomplete s raw) = Inr (t\<lparr>completed := False\<rparr>, completed t)
        \<and> map_of (tasks (snd (mark_incomplete s raw)))
            = (map_of (tasks s))(i \<mapsto> t\<lparr>completed := False\<rparr>)
        \<and> counter (snd (mark_incomplete s raw)) = counter s"
  proof (intro impI, elim conjE)
    assume h: "validate_task_id raw = Inr i" "map_of (tasks s) i = Some t"
    have "get s raw = Inr t"
      using get_ref_found [OF h] by (simp add: get_def)
    then show "get s raw = Inr t
        \<and> fst (delete s raw) = Inr t
        \<and> map_of (tasks (snd (delete s raw))) = (map_of (tasks s))(i := None)
        \<and> counter (snd (delete s raw)) = counter s
        \<and> persisted (snd (delete s raw))
        \<and> fst (mark_complete s raw) = Inr (t\<lparr>completed := True\<rparr>, \<not> completed t)
        \<and> map_of (tasks (snd (mark_complete s raw)))
            = (map_of (tasks s))(i \<mapsto> t\<lparr>completed := True\<rparr>)
        \<and> counter (snd (mark_complete s raw)) = counter s
        \<and> fst (mark_incomplete s raw) = Inr (t\<lparr>completed := False\<rparr>, completed t)
        \<and> map_of (tasks (snd (mark_incomplete s raw)))
            = (map_of (tasks s))(i \<mapsto> t\<lparr>completed := False\<rparr>)
        \<and> counter (snd (mark_incomplete s raw)) = counter s"
      using delete_found [OF h] mark_complete_found [OF h] mark_incomplete_found [OF h]
      by blast
  qed
  have u: "validate_task_id raw = Inr i \<and> map_of (tasks s) i = Some t \<longrightarrow>
        (validate_title x = Inr v \<and> validate_description y = Inr w \<longrightarrow>
             fst (update s raw (Some x) (Some y)) = Inr (t\<lparr>title := v, description := w\<rparr>)
             \<and> map_of (tasks (snd (update s raw (Some x) (Some y))))
                 = (map_of (tasks s))(i \<mapsto> t\<lparr>title := v, description := w\<rparr>)
             \<and> fst (update s raw (Some x) None) = Inr (t\<lparr>title := v\<rparr>)
             \<and> map_of (tasks (snd (update s raw (Some x) None)))
                 = (map_of (tasks s))(i \<mapsto> t\<lparr>title := v\<rparr>)
             \<and> fst (update s raw None (Some y)) = Inr (t\<lparr>description := w\<rparr>)
             \<and> map_of (tasks (snd (update s raw None (Some y))))
                 = (map_of (tasks s))(i \<mapsto> t\<lparr>description := w\<rparr>)
             \<and> counter (snd (update s raw (Some x) (Some y))) = counter s
             \<and> persisted (snd (update s raw (Some x) (Some y)))
             \<and> persisted (snd (update s raw (Some x) None))
             \<and> persisted (snd (update s raw None (Some y))))"
  proof (intro impI, elim conjE)
    assume h: "validate_task_id raw = Inr i" "map_of (tasks s) i = Some t"
      "validate_title x = Inr v" "validate_description y = Inr w"
    show "fst (update s raw (Some x) (Some y)) = Inr (t\<lparr>title := v, description := w\<rparr>)
             \<and> map_of (tasks (snd (update s raw (Some x) (Some y))))
                 = (map_of (tasks s))(i \<mapsto> t\<lparr>title := v, description := w\<rparr>)
             \<and> fst (update s raw (Some x) None) = Inr (t\<lparr>title := v\<rparr>)
             \<and> map_of (tasks (snd (update s raw (Some x) None)))
                 = (map_of (tasks s))(i \<mapsto> t\<lparr>title := v\<rparr>)
             \<and> fst (update s raw None (Some y)) = Inr (t\<lparr>description := w\<rparr>)
             \<and> map_of (tasks (snd (update s raw None (Some y))))
                 = (map_of (tasks s))(i \<mapsto> t\<lparr>description := w\<rparr>)
             \<and> counter (snd (update s raw (Some x) (Some y))) = counter s
             \<and> persisted (snd (update s raw (Some x) (Some y)))
             \<and> persisted (snd (update s raw (Some x) None))
             \<and> persisted (snd (update s raw None (Some y)))"
      using update_found [OF h] by blast
  qed
  show ?thesis using a b c d e f g u by blast
qed

lemma validate_t00x:
  "validate_task_id ''t001'' = Inr ''T001''"
  "validate_task_id ''t002'' = Inr ''T002''"
  "validate_task_id ''T003'' = Inr ''T003''"
  "validate_task_id ''t004'' = Inr ''T004''"
  by code_simp+

lemma fixture_entries:
  "map_of (tasks service_with_tasks) ''T001'' =
     Some \<lparr>id_t = ''T001'', title = ''Buy groceries'', description = ''Milk, eggs, bread'',
           completed = False, created_at = half_past_ten\<rparr>"
  "map_of (tasks service_with_tasks) ''T002'' =
     Some \<lparr>id_t = ''T002'', title = ''Call mom'', description = [], completed = True,
           created_at = half_past_ten\<rparr>"
  "map_of (tasks service_with_tasks) ''T003'' =
     Some \<lparr>id_t = ''T003'', title = ''Pay bills'', description = ''Electric and water'',
           completed = False, created_at = half_past_ten\<rparr>"
  "map_of (tasks service_with_tasks) ''T004'' = None"
  unfolding service_with_tasks_value by simp_all

lemma validate_new_fields:
  "validate_title ''  Pay rent '' = Inr ''Pay rent''"
  "validate_description ''Due on Friday'' = Inr ''Due on Friday''"
  by code_simp+

theorem validate_task_id_case_insensitive_witness:
  "validate_task_id ''t002'' = Inr ''T002''
   \<and> validate_task_id ''t2x'' = Inl InvalidIDFormatError
   \<and> map_sum (\<lambda>e. e) title (get service_with_tasks ''t002'') = Inr ''Call mom''
   \<and> fst (delete service_with_tasks ''t002'') =
       Inr \<lparr>id_t = ''T002'', title = ''Call mom'', description = [], completed = True,
            created_at = half_past_ten\<rparr>
   \<and> map_of (tasks (snd (delete service_with_tasks ''t002''))) ''T002'' = None
   \<and> map_of (tasks (snd (delete service_with_tasks ''t002''))) ''T001'' =
       Some \<lparr>id_t = ''T001'', title = ''Buy groceries'', description = ''Milk, eggs, bread'',
             completed = False, created_at = half_past_ten\<rparr>
   \<and> fst (mark_complete service_with_tasks ''t001'') =
       Inr (\<lparr>id_t = ''T001'', title = ''Buy groceries'', description = ''Milk, eggs, bread'',
             completed = True, created_at = half_past_ten\<rparr>, True)
   \<and> map_of (tasks (snd (mark_complete service_with_tasks ''t001''))) ''T001'' =
       Some \<lparr>id_t = ''T001'', title = ''Buy groceries'', description = ''Milk, eggs, bread'',
             completed = True, created_at = half_past_ten\<rparr>
   \<and> fst (mark_incomplete service_with_tasks ''t002'') =
       Inr (\<lparr>id_t = ''T002'', title = ''Call mom'', description = [], completed = False,
             created_at = half_past_ten\<rparr>, True)
   \<and> map_of (tasks (snd (mark_incomplete service_with_tasks ''t002''))) ''T002'' =
       Some \<lparr>id_t = ''T002'', title = ''Call mom'', description = [], completed = False,
             created_at = half_past_ten\<rparr>
   \<and> fst (update service_with_tasks ''t001'' (Some ''  Pay rent '') (Some ''Due on Friday'')) =
       Inr \<lparr>id_t = ''T001'', title = ''Pay rent'', description = ''Due on Friday'',
            completed = False, created_at = half_past_ten\<rparr>
   \<and> map_of (tasks (snd (update service_with_tasks ''t001'' (Some ''  Pay rent '')
                            (Some ''Due on Friday'')))) ''T001'' =
       Some \<lparr>id_t = ''T001'', title = ''Pay rent'', description = ''Due on Friday'',
             completed = False, created_at = half_past_ten\<rparr>
   \<and> map_of (tasks (snd (update service_with_tasks ''t001'' (Some ''  Pay rent '')
                            (Some ''Due on Friday'')))) ''T003'' =
       Some \<lparr>id_t = ''T003'', title = ''Pay bills'', description = ''Electric and water'',
             completed = False, created_at = half_past_ten\<rparr>
   \<and> get service_with_tasks ''t004'' = Inl (TaskNotFoundError ''T004'')
   \<and> delete service_with_tasks ''t004'' = (Inl (TaskNotFoundError ''T004''), service_with_tasks)
   \<and> update service_with_tasks ''t004'' (Some ''Pay rent'') None
       = (Inl (TaskNotFoundError ''T004''), service_with_tasks)"
proof -
  have digits: "''002'' \<noteq> [] \<and> list_all is_digit ''002''"
    by (simp add: is_digit_def)
  have other: "\<nexists>ds. ds \<noteq> [] \<and> list_all is_digit ds \<and> (''t2x'' = CHR ''T'' # ds \<or> ''t2x'' = CHR ''t'' # ds)"
    by (auto simp: is_digit_def)
  have valid: "validate_task_id ''t002'' = Inr ''T002''"
    using validate_task_id_case_insensitive [of "''002''"] digits by blast
  have invalid: "validate_task_id ''t2x'' = Inl InvalidIDFormatError"
    using validate_task_id_case_insensitive [of _ "''t2x''"] other by blast
  have "get service_with_tasks ''t002'' =
          (case map_of (tasks service_with_tasks) ''T002'' of
             None \<Rightarrow> Inl (TaskNotFoundError ''T002'') | Some t \<Rightarrow> Inr t)"
    using validate_task_id_case_insensitive [of _ "''t002''" service_with_tasks _ _ "''T002''"] valid
    by blast
  then have got: "map_sum (\<lambda>e. e) title (get service_with_tasks ''t002'') = Inr ''Call mom''"
    by (simp add: service_with_tasks_value)
  note two = validate_task_id_case_insensitive
    [where raw = "''t002''" and s = service_with_tasks and i = "''T002''"
       and t = "\<lparr>id_t = ''T002'', title = ''Call mom'', description = [], completed = True,
                 created_at = half_past_ten\<rparr>"]
  note one = validate_task_id_case_insensitive
    [where raw = "''t001''" and s = service_with_tasks and i = "''T001''"
       and t = "\<lparr>id_t = ''T001'', title = ''Buy groceries'',
                 description = ''Milk, eggs, bread'', completed = False,
                 created_at = half_past_ten\<rparr>"
       and x = "''  Pay rent ''" and v = "''Pay rent''"
       and y = "''Due on Friday''" and w = "''Due on Friday''"]
  note four = validate_task_id_case_insensitive
    [where raw = "''t004''" and s = service_with_tasks and i = "''T004''"
       and nt = "Some ''Pay rent''" and nd = None]
  have del: "fst (delete service_with_tasks ''t002'') =
       Inr \<lparr>id_t = ''T002'', title = ''Call mom'', description = [], completed = True,
            created_at = half_past_ten\<rparr>"
    "map_of (tasks (snd (delete service_with_tasks ''t002''))) =
       (map_of (tasks service_with_tasks))(''T002'' := None)"
    "fst (mark_incomplete service_with_tasks ''t002'') =
       Inr (\<lparr>id_t = ''T002'', title = ''Call mom'', description = [], completed = True,
             created_at = half_past_ten\<rparr>\<lparr>completed := False\<rparr>,
            completed \<lparr>id_t = ''T002'', title = ''Call mom'', description = [],
                       completed = True, created_at = half_past_ten\<rparr>)"
    "map_of (tasks (snd (mark_incomplete service_with_tasks ''t002''))) =
       (map_of (tasks service_with_tasks))(''T002'' \<mapsto>
          \<lparr>id_t = ''T002'', title = ''Call mom'', description = [], completed = True,
           created_at = half_past_ten\<rparr>\<lparr>completed := False\<rparr>)"
    using two validate_t00x(2) fixture_entries(2) by blast+
  have mark: "fst (mark_complete service_with_tasks ''t001'') =
       Inr (\<lparr>id_t = ''T001'', title = ''Buy groceries'', description = ''Milk, eggs, bread'',
             completed = False, created_at = half_past_ten\<rparr>\<lparr>completed := True\<rparr>,
            \<not> completed \<lparr>id_t = ''T001'', title = ''Buy groceries'',
                         description = ''Milk, eggs, bread'', completed = False,
                         created_at = half_past_ten\<rparr>)"
    "map_of (tasks (snd (mark_complete service_with_tasks ''t001''))) =
       (map_of (tasks service_with_tasks))(''T001'' \<mapsto>
          \<lparr>id_t = ''T001'', title = ''Buy groceries'', description = ''Milk, eggs, bread'',
           completed = False, created_at = half_past_ten\<rparr>\<lparr>completed := True\<rparr>)"
    "fst (update service_with_tasks ''t001'' (Some ''  Pay rent '') (Some ''Due on Friday'')) =
       Inr (\<lparr>id_t = ''T001'', title = ''Buy groceries'', description = ''Milk, eggs, bread'',
             completed = False, created_at = half_past_ten\<rparr>
            \<lparr>title := ''Pay rent'', description := ''Due on Friday''\<rparr>)"
    "map_of (tasks (snd (update service_with_tasks ''t001'' (Some ''  Pay rent '')
                            (Some ''Due on Friday'')))) =
       (map_of (tasks service_with_tasks))(''T001'' \<mapsto>
          \<lparr>id_t = ''T001'', title = ''Buy groceries'', description = ''Milk, eggs, bread'',
           completed = False, created_at = half_past_ten\<rparr>
          \<lparr>title := ''Pay rent'', description := ''Due on Friday''\<rparr>)"
    using one validate_t00x(1) fixture_entries(1) validate_new_fields by blast+
  have miss: "get service_with_tasks ''t004'' = Inl (TaskNotFoundError ''T004'')"
    "delete service_with_tasks ''t004'' = (Inl (TaskNotFoundError ''T004''), service_with_tasks)"
    "update service_with_tasks ''t004'' (Some ''Pay rent'') None
       = (Inl (TaskNotFoundError ''T004''), service_with_tasks)"
    using four validate_t00x(4) fixture_entries(4) by blast+
  show ?thesis
    using valid invalid got del mark miss by (simp add: fixture_entries)
qed

section \<open>Failing calls\<close>

lemma add_failure: "fst (add s now t d) = Inl e \<Longrightarrow> snd (add s now t d) = s"
  by (auto simp: add_def Let_def split: sum.splits prod.splits)

lemma delete_failure: "fst (delete s i) = Inl e \<Longrightarrow> snd (delete s i) = s"
  by (auto simp: delete_def split: sum.splits option.splits)

lemma mark_complete_failure: "fst (mark_complete s i) = Inl e \<Longrightarrow> snd (mark_complete s i) = s"
  by (auto simp: mark_complete_def Let_def split: sum.splits prod.splits if_splits)

lemma mark_incomplete_failure:
  "fst (mark_incomplete s i) = Inl e \<Longrightarrow> snd (mark_incomplete s i) = s"
  by (auto simp: mark_incomplete_def Let_def split: sum.splits prod.splits if_splits)

text \<open>A failing \<open>update\<close> writes no file and leaves the counter; it leaves the tasks too,
  unless it was given a title that is valid and a description that is not.\<close>

lemma update_failure:
  assumes "fst (update s i nt nd) = Inl e"
  shows "storage (snd (update s i nt nd)) = storage s"
    and "counter (snd (update s i nt nd)) = counter s"
    and "nt = None \<or> e \<noteq> DescriptionTooLongError \<Longrightarrow> snd (update s i nt nd) = s"
  using assms
  by (auto simp: update_def Let_def assign_def validate_description_def
      split: sum.splits prod.splits option.splits if_splits)

text \<open>A call that succeeds and changes something leaves the file holding the snapshot.\<close>

lemma success_persisted:
  "fst (add s now t d) = Inr r \<Longrightarrow> persisted (snd (add s now t d))"
  "fst (update s i nt nd) = Inr r \<Longrightarrow> persisted (snd (update s i nt nd))"
  "fst (delete s i) = Inr r \<Longrightarrow> persisted (snd (delete s i))"
  "fst (mark_complete s i) = Inr (r, True) \<Longrightarrow> persisted (snd (mark_complete s i))"
  "fst (mark_incomplete s i) = Inr (r, True) \<Longrightarrow> persisted (snd (mark_incomplete s i))"
  by (auto simp: add_def update_def delete_def mark_complete_def mark_incomplete_def Let_def
      persisted_save split: sum.splits prod.splits option.splits if_splits)

lemma long_description_rejected:
  "validate_description long_description = Inl DescriptionTooLongError"
  by (simp add: validate_description_def long_description_def MAX_DESCRIPTION_LENGTH_def)

lemma new_title_accepted: "validate_title ''New title'' = Inr ''New title''"
  by code_simp

lemma get_ref_T001:
  "get_ref service_with_tasks ''T001'' =
     Inr (''T001'', \<lparr>id_t = ''T001'', title = ''Buy groceries'',
                     description = ''Milk, eggs, bread'', completed = False,
                     created_at = half_past_ten\<rparr>)"
  unfolding service_with_tasks_value by code_simp

lemma update_T001_value:
  "update service_with_tasks ''T001'' (Some ''New title'') (Some long_description) =
     (Inl DescriptionTooLongError,
      assign service_with_tasks ''T001''
        \<lparr>id_t = ''T001'', title = ''New title'', description = ''Milk, eggs, bread'',
         completed = False, created_at = half_past_ten\<rparr>)"
  by (simp add: update_def get_ref_T001 new_title_accepted long_description_rejected)

text \<open>
  C1, at a failing call. On the fixture of the unit tests, \<open>update\<close> of \<open>T001\<close> with a
  valid new title and a description of 1001 characters raises \<open>DescriptionTooLongError\<close>
  and writes no file, and the task stored under \<open>T001\<close> has the new title: the title was
  assigned before the description was validated.
\<close>

theorem update_keeps_title_of_failed_call:
  "fst (update service_with_tasks ''T001'' (Some ''New title'') (Some long_description))
     = Inl DescriptionTooLongError
   \<and> map_sum (\<lambda>e. e) title (get service_with_tasks ''T001'') = Inr ''Buy groceries''
   \<and> map_sum (\<lambda>e. e) title
        (get (snd (update service_with_tasks ''T001'' (Some ''New title'') (Some long_description)))
           ''T001'') = Inr ''New title''
   \<and> storage (snd (update service_with_tasks ''T001'' (Some ''New title'') (Some long_description)))
     = storage service_with_tasks"
  unfolding update_T001_value unfolding service_with_tasks_value by code_simp

section \<open>Loading\<close>

text \<open>
  C2, at a failing file. The first record of the file is complete and the second has no
  title: the store is constructed with the first task in it and the counter 0. A record
  whose timestamp is not a date makes the construction raise \<open>ValueError\<close>.
\<close>

theorem load_keeps_tasks_read_before_failure:
  "init (Some torn_file) =
     Inr \<lparr>tasks = [(''T001'', \<lparr>id_t = ''T001'', title = ''Buy groceries'',
                               description = ''Milk, eggs, bread'', completed = False,
                               created_at = half_past_ten\<rparr>)],
          counter = 0, storage = Some torn_file\<rparr>
   \<and> init (Some undated_file) = Inl ValueError"
  by code_simp

section \<open>Listing\<close>

text \<open>
  C3, counterexample. The 999th and the 1000th id are issued in that order, and
  \<open>list_all\<close> returns \<open>T1000\<close> before \<open>T999\<close>, although 999 is the smaller number.
\<close>

theorem list_all_T1000_before_T999:
  "init (Some late_file) = Inr late_store
   \<and> map id_t (added late_store late_cmds) = [''T999'', ''T1000'']
   \<and> map id_t (list_all_tasks (run late_store late_cmds)) = [''T1000'', ''T999'']
   \<and> dec_val ''999'' < dec_val ''1000''"
  by code_simp

subsection \<open>Digit strings of one length\<close>

lemma digit_code: "is_digit c \<Longrightarrow> (of_char c :: nat) = 48 + digit_val c"
  unfolding is_digit_def digit_val_def by (elim rev_mp) auto

lemma digit_val_less: "is_digit c \<Longrightarrow> is_digit d \<Longrightarrow> (c < d) = (digit_val c < digit_val d)"
  by (simp add: less_char_def digit_code)

lemma digit_val_eq: "is_digit c \<Longrightarrow> is_digit d \<Longrightarrow> (c = d) = (digit_val c = digit_val d)"
  by (metis digit_code of_char_eq_iff)

lemma digit_val_bound: "is_digit c \<Longrightarrow> digit_val c < 10"
  unfolding is_digit_def digit_val_def by (elim rev_mp) auto

lemma foldl_dec:
  "foldl (\<lambda>a c. 10 * a + digit_val c) a cs
     = a * 10 ^ length cs + foldl (\<lambda>a c. 10 * a + digit_val c) 0 cs"
proof (induction cs arbitrary: a)
  case Nil
  show ?case by simp
next
  case (Cons c cs)
  show ?case
    unfolding foldl_Cons
    by (subst Cons.IH, subst (2) Cons.IH) (simp add: algebra_simps)
qed

lemma dec_val_Cons: "dec_val (c # cs) = digit_val c * 10 ^ length cs + dec_val cs"
  unfolding dec_val_def foldl_Cons by (subst foldl_dec) simp

lemma dec_val_Nil: "dec_val [] = 0"
  by (simp add: dec_val_def)

lemma dec_val_bound: "list_all is_digit cs \<Longrightarrow> dec_val cs < 10 ^ length cs"
proof (induction cs)
  case Nil
  show ?case by (simp add: dec_val_Nil)
next
  case (Cons c cs)
  have "digit_val c \<le> 9" using Cons.prems digit_val_bound [of c] by simp
  then have "digit_val c * 10 ^ length cs \<le> 9 * 10 ^ length cs"
    by (rule mult_le_mono1)
  moreover have "dec_val cs < 10 ^ length cs" using Cons by simp
  ultimately have "digit_val c * 10 ^ length cs + dec_val cs < 10 * 10 ^ length cs"
    by linarith
  then show ?case by (simp add: dec_val_Cons)
qed

lemma digits_order:
  assumes "length a = length b" "list_all is_digit a" "list_all is_digit b"
  shows "(a < b) = (dec_val a < dec_val b) \<and> (a = b) = (dec_val a = dec_val b)"
  using assms
proof (induction a b rule: list_induct2)
  case Nil
  show ?case by (simp add: dec_val_Nil)
next
  case (Cons x xs y ys)
  let ?p = "(10::nat) ^ length ys"
  have dx: "is_digit x" and dy: "is_digit y" using Cons.prems by simp_all
  have bx: "dec_val xs < ?p" using dec_val_bound [of xs] Cons by simp
  have "by": "dec_val ys < ?p" using dec_val_bound [of ys] Cons by simp
  have ih: "(xs < ys) = (dec_val xs < dec_val ys)" "(xs = ys) = (dec_val xs = dec_val ys)"
    using Cons by simp_all
  have lt: "digit_val x < digit_val y \<Longrightarrow> dec_val (x # xs) < dec_val (y # ys)"
  proof -
    assume "digit_val x < digit_val y"
    then have "Suc (digit_val x) \<le> digit_val y" by simp
    then have "Suc (digit_val x) * ?p \<le> digit_val y * ?p" by (rule mult_le_mono1)
    then have "digit_val x * ?p + ?p \<le> digit_val y * ?p" by (simp only: mult_Suc add.commute)
    then have "digit_val x * ?p + dec_val xs < digit_val y * ?p + dec_val ys"
      using bx by linarith
    then show ?thesis using Cons.hyps by (simp add: dec_val_Cons)
  qed
  have gt: "digit_val y < digit_val x \<Longrightarrow> dec_val (y # ys) < dec_val (x # xs)"
  proof -
    assume "digit_val y < digit_val x"
    then have "Suc (digit_val y) \<le> digit_val x" by simp
    then have "Suc (digit_val y) * ?p \<le> digit_val x * ?p" by (rule mult_le_mono1)
    then have "digit_val y * ?p + ?p \<le> digit_val x * ?p" by (simp only: mult_Suc add.commute)
    then have "digit_val y * ?p + dec_val ys < digit_val x * ?p + dec_val xs"
      using "by" by linarith
    then show ?thesis using Cons.hyps by (simp add: dec_val_Cons)
  qed
  consider "digit_val x < digit_val y" | "digit_val y < digit_val x" | "digit_val x = digit_val y"
    by linarith
  then show ?case
  proof cases
    case 1
    then have "x < y" "x \<noteq> y" using dx dy by (simp_all add: digit_val_less digit_val_eq)
    then show ?thesis using lt [OF 1] by simp
  next
    case 2
    then have "y < x" "x \<noteq> y" using dx dy by (simp_all add: digit_val_less digit_val_eq)
    then have "\<not> x < y" by simp
    then show ?thesis using gt [OF 2] \<open>x \<noteq> y\<close> by simp
  next
    case 3
    then have "x = y" using dx dy by (simp add: digit_val_eq)
    then show ?thesis using ih Cons.hyps by (simp add: dec_val_Cons)
  qed
qed

lemma id_order_numeric:
  assumes "length a = length b" "list_all is_digit a" "list_all is_digit b"
  shows "(CHR ''T'' # a \<le> CHR ''T'' # b) = (dec_val a \<le> dec_val b)"
  using digits_order [OF assms] by (auto simp: le_less)

text \<open>
  C3, amended. \<open>list_all\<close> returns exactly the stored tasks, in ascending order of the
  id read as a string of characters; \<open>list_pending\<close> and \<open>list_completed\<close> are the tasks
  of that list with \<open>completed\<close> false and true, in the same order. Between ids with the
  same number of digits the order of the strings is the order of the numbers.
\<close>

theorem list_all_sorted_by_id_string:
  "sorted (map id_t (list_all_tasks s))
   \<and> mset (list_all_tasks s) = mset (map snd (tasks s))
   \<and> list_pending s = filter (\<lambda>t. \<not> completed t) (list_all_tasks s)
   \<and> list_completed s = filter completed (list_all_tasks s)
   \<and> sorted (map id_t (list_pending s))
   \<and> sorted (map id_t (list_completed s))
   \<and> mset (list_pending s) = filter_mset (\<lambda>t. \<not> completed t) (mset (map snd (tasks s)))
   \<and> mset (list_completed s) = filter_mset completed (mset (map snd (tasks s)))
   \<and> (length a = length b \<and> list_all is_digit a \<and> list_all is_digit b \<longrightarrow>
        (CHR ''T'' # a \<le> CHR ''T'' # b) = (dec_val a \<le> dec_val b))"
proof -
  have srt: "sorted (map id_t (list_all_tasks s))"
    by (simp add: list_all_tasks_def)
  have all: "mset (list_all_tasks s) = mset (map snd (tasks s))"
    by (simp add: list_all_tasks_def)
  have "sorted (map id_t (list_pending s))" "sorted (map id_t (list_completed s))"
    unfolding list_pending_def list_completed_def using srt by (rule sorted_filter)+
  moreover have "mset (list_pending s) = filter_mset (\<lambda>t. \<not> completed t) (mset (map snd (tasks s)))"
    "mset (list_completed s) = filter_mset completed (mset (map snd (tasks s)))"
    unfolding list_pending_def list_completed_def mset_filter all by simp_all
  ultimately show ?thesis
    using srt all id_order_numeric [of a b]
    by (simp add: list_pending_def list_completed_def)
qed

theorem list_all_sorted_by_id_string_witness:
  "sorted (map id_t (list_all_tasks service_with_tasks))
   \<and> mset (list_pending service_with_tasks)
       = filter_mset (\<lambda>t. \<not> completed t) (mset (map snd (tasks service_with_tasks)))
   \<and> (''T042'' \<le> ''T107'') = (dec_val ''042'' \<le> dec_val ''107'')"
proof -
  have "length ''042'' = length ''107'' \<and> list_all is_digit ''042'' \<and> list_all is_digit ''107''"
    by (simp add: is_digit_def)
  then show ?thesis
    using list_all_sorted_by_id_string [of service_with_tasks "''042''" "''107''"] by blast
qed

section \<open>Required and optional keys of a record\<close>

lemma task_of_data_KeyError:
  "(\<exists>k. task_of_data d = Inl (KeyError k)) = (\<not> complete_record d)"
  by (auto simp: task_of_data_def complete_record_def split: option.splits)

lemma task_of_data_caught:
  "(\<exists>e. task_of_data d = Inl e \<and> caught e) = (\<not> complete_record d)"
  by (auto simp: task_of_data_def complete_record_def split: option.splits)

lemma task_of_data_Inr:
  assumes "task_of_data d = Inr t"
  shows "td_id d = Some i \<Longrightarrow> id_t t = upper i"
    and "td_title d = Some x \<Longrightarrow> title t = x"
    and "description t = (case td_description d of None \<Rightarrow> [] | Some x \<Rightarrow> x)"
    and "completed t = (case td_completed d of None \<Rightarrow> False | Some b \<Rightarrow> b)"
    and "td_created_at d = Some c \<Longrightarrow> fromisoformat c = Some (created_at t)"
    and "complete_record d"
  using assms
  by (auto simp: task_of_data_def Task_def complete_record_def split: option.splits)

lemma task_of_data_complete:
  "complete_record d \<Longrightarrow> td_created_at d = Some c \<Longrightarrow> fromisoformat c = Some at
   \<Longrightarrow> \<exists>t. task_of_data d = Inr t"
  by (auto simp: task_of_data_def complete_record_def split: option.splits)

lemma restore_tasks_error:
  "(fst (restore_tasks ds ts) = Some e) =
     (\<exists>pre d post. ds = pre @ d # post \<and> list_all (\<lambda>p. \<not> isl (task_of_data p)) pre
                    \<and> task_of_data d = Inl e)"
proof (induction ds arbitrary: ts)
  case Nil
  show ?case by simp
next
  case (Cons a ds)
  show ?case
  proof (cases "task_of_data a")
    case (Inl e')
    have "(\<exists>pre d post. a # ds = pre @ d # post \<and> list_all (\<lambda>p. \<not> isl (task_of_data p)) pre
                    \<and> task_of_data d = Inl e) = (e' = e)"
    proof
      assume "\<exists>pre d post. a # ds = pre @ d # post \<and> list_all (\<lambda>p. \<not> isl (task_of_data p)) pre
                    \<and> task_of_data d = Inl e"
      then obtain pre d post where h: "a # ds = pre @ d # post"
        "list_all (\<lambda>p. \<not> isl (task_of_data p)) pre" "task_of_data d = Inl e" by blast
      show "e' = e"
      proof (cases pre)
        case Nil
        then show ?thesis using h Inl by simp
      next
        case (Cons p ps)
        then have "p = a" using h by simp
        then show ?thesis using h Cons Inl by simp
      qed
    next
      assume "e' = e"
      then have "a # ds = [] @ a # ds \<and> list_all (\<lambda>p. \<not> isl (task_of_data p)) []
                 \<and> task_of_data a = Inl e" using Inl by simp
      then show "\<exists>pre d post. a # ds = pre @ d # post
                   \<and> list_all (\<lambda>p. \<not> isl (task_of_data p)) pre \<and> task_of_data d = Inl e"
        by blast
    qed
    then show ?thesis using Inl by simp
  next
    case (Inr t)
    have "(\<exists>pre d post. a # ds = pre @ d # post \<and> list_all (\<lambda>p. \<not> isl (task_of_data p)) pre
                    \<and> task_of_data d = Inl e)
          = (\<exists>pre d post. ds = pre @ d # post \<and> list_all (\<lambda>p. \<not> isl (task_of_data p)) pre
                    \<and> task_of_data d = Inl e)"
    proof
      assume "\<exists>pre d post. a # ds = pre @ d # post \<and> list_all (\<lambda>p. \<not> isl (task_of_data p)) pre
                    \<and> task_of_data d = Inl e"
      then obtain pre d post where h: "a # ds = pre @ d # post"
        "list_all (\<lambda>p. \<not> isl (task_of_data p)) pre" "task_of_data d = Inl e" by blast
      show "\<exists>pre d post. ds = pre @ d # post \<and> list_all (\<lambda>p. \<not> isl (task_of_data p)) pre
                    \<and> task_of_data d = Inl e"
      proof (cases pre)
        case Nil
        then show ?thesis using h Inr by simp
      next
        case (Cons p ps)
        then have "ds = ps @ d # post \<and> list_all (\<lambda>p. \<not> isl (task_of_data p)) ps"
          using h by simp
        then show ?thesis using h(3) by blast
      qed
    next
      assume "\<exists>pre d post. ds = pre @ d # post \<and> list_all (\<lambda>p. \<not> isl (task_of_data p)) pre
                    \<and> task_of_data d = Inl e"
      then obtain pre d post where h: "ds = pre @ d # post"
        "list_all (\<lambda>p. \<not> isl (task_of_data p)) pre" "task_of_data d = Inl e" by blast
      then have "a # ds = (a # pre) @ d # post
                 \<and> list_all (\<lambda>p. \<not> isl (task_of_data p)) (a # pre)"
        using Inr by simp
      then show "\<exists>pre d post. a # ds = pre @ d # post
                   \<and> list_all (\<lambda>p. \<not> isl (task_of_data p)) pre \<and> task_of_data d = Inl e"
        using h(3) by blast
    qed
    then show ?thesis using Inr Cons.IH by simp
  qed
qed

lemma restore_tasks_ok:
  "(fst (restore_tasks ds ts) = None) = list_all (\<lambda>p. \<not> isl (task_of_data p)) ds"
  by (induction ds arbitrary: ts) (auto split: sum.splits)

lemma load_body_error:
  "fst (load_body c s) =
     (case c of Malformed \<Rightarrow> Some JSONDecodeError
      | Document d \<Rightarrow> fst (restore_tasks (records (Some c)) (tasks s)))"
  by (auto simp: load_body_def records_def split: file_content.splits prod.splits option.splits)

lemma load_body_fallback:
  "(\<exists>e. fst (load_body c s) = Some e \<and> caught e) =
     (c = Malformed \<or>
      (\<exists>pre d post. records (Some c) = pre @ d # post
         \<and> list_all (\<lambda>p. \<not> isl (task_of_data p)) pre \<and> \<not> complete_record d))"
proof (cases c)
  case Malformed
  then show ?thesis by (simp add: load_body_error)
next
  case (Document doc)
  have "(\<exists>e. fst (load_body c s) = Some e \<and> caught e) =
          (\<exists>e pre d post. records (Some c) = pre @ d # post
             \<and> list_all (\<lambda>p. \<not> isl (task_of_data p)) pre \<and> task_of_data d = Inl e \<and> caught e)"
    using Document by (auto simp: load_body_error restore_tasks_error)
  also have "\<dots> = (\<exists>pre d post. records (Some c) = pre @ d # post
             \<and> list_all (\<lambda>p. \<not> isl (task_of_data p)) pre \<and> \<not> complete_record d)"
    using task_of_data_caught by blast
  finally show ?thesis using Document by simp
qed

lemma load_body_complete:
  "(fst (load_body c s) = None) =
     (c \<noteq> Malformed \<and> list_all (\<lambda>p. \<not> isl (task_of_data p)) (records (Some c)))"
  by (cases c) (simp_all add: load_body_error restore_tasks_ok)

lemma load_body_counter:
  "load_body (Document d) s = (None, s') \<Longrightarrow>
     counter s' = (case next_id_counter d of None \<Rightarrow> 0 | Some n \<Rightarrow> n)"
  by (auto simp: load_body_def split: prod.splits option.splits)

subsection \<open>The store that the constructor leaves\<close>

lemma init_Malformed:
  "init (Some Malformed) = Inr \<lparr>tasks = [], counter = 0, storage = Some Malformed\<rparr>"
  by (simp add: init_def load_def load_body_def)

lemma restore_tasks_prefix:
  "list_all (\<lambda>p. \<not> isl (task_of_data p)) pre \<Longrightarrow>
     restore_tasks (pre @ post) ts = restore_tasks post (snd (restore_tasks pre ts))"
  by (induction pre arbitrary: ts) (auto split: sum.splits)

text \<open>When the first record that gives no task lacks a required key, the exception is
  swallowed: the store holds the tasks of the records before it, and the counter 0.\<close>

lemma init_fallback:
  assumes "doc_tasks doc = Some (pre @ r # post)"
    and "list_all (\<lambda>p. \<not> isl (task_of_data p)) pre" "\<not> complete_record r"
  shows "init (Some (Document doc)) =
           Inr \<lparr>tasks = snd (restore_tasks pre []), counter = 0, storage = Some (Document doc)\<rparr>"
proof -
  obtain k where k: "task_of_data r = Inl (KeyError k)"
    using assms(3) task_of_data_KeyError [of r] by blast
  have "restore_tasks (pre @ r # post) [] = (Some (KeyError k), snd (restore_tasks pre []))"
    using restore_tasks_prefix [OF assms(2), of "r # post" "[]"] k by simp
  then show ?thesis
    using assms(1) by (simp add: init_def load_def load_body_def)
qed

text \<open>When it has the three keys, its timestamp is no date and the constructor raises.\<close>

lemma init_ValueError:
  assumes "doc_tasks doc = Some (pre @ r # post)"
    and "list_all (\<lambda>p. \<not> isl (task_of_data p)) pre"
    and "complete_record r" "isl (task_of_data r)"
  shows "init (Some (Document doc)) = Inl ValueError"
proof -
  have "task_of_data r = Inl ValueError"
    using assms(3,4) by (auto simp: task_of_data_def complete_record_def split: option.splits)
  then have "restore_tasks (pre @ r # post) [] = (Some ValueError, snd (restore_tasks pre []))"
    using restore_tasks_prefix [OF assms(2), of "r # post" "[]"] by simp
  then show ?thesis
    using assms(1) by (simp add: init_def load_def load_body_def)
qed

text \<open>When every record gives a task, all are stored and the counter is the one of the
  file, or 0 when the file has none.\<close>

lemma init_all_read:
  assumes "list_all (\<lambda>p. \<not> isl (task_of_data p)) (records (Some (Document doc)))"
  shows "init (Some (Document doc)) =
           Inr \<lparr>tasks = snd (restore_tasks (records (Some (Document doc))) []),
                counter = (case next_id_counter doc of None \<Rightarrow> 0 | Some n \<Rightarrow> n),
                storage = Some (Document doc)\<rparr>"
proof -
  have "fst (restore_tasks (records (Some (Document doc))) []) = None"
    using assms by (simp add: restore_tasks_ok)
  then have "restore_tasks (case doc_tasks doc of None \<Rightarrow> [] | Some l \<Rightarrow> l) []
               = (None, snd (restore_tasks (records (Some (Document doc))) []))"
    by (simp add: records_def prod_eq_iff)
  then show ?thesis
    by (simp add: init_def load_def load_body_def)
qed

text \<open>
  C10, at failing files. The file holds the counter 8 and two records. The first has the
  keys \<open>id\<close>, \<open>title\<close> and \<open>created_at\<close> only: it is read as a task with the empty
  description and the flag false. When the second record lacks \<open>id\<close>, \<open>title\<close> or
  \<open>created_at\<close>, the store is constructed with the first task in it and the counter 0:
  it is not empty. When the second record lacks \<open>description\<close> and \<open>completed\<close> only,
  both tasks are stored and the counter is 8; a file with no counter gives the counter 0;
  a file that is not JSON gives the empty store.
\<close>

theorem load_fallback_not_empty:
  "init (Some (two_record_file (second_record\<lparr>td_id := None\<rparr>))) =
     Inr \<lparr>tasks = [(''T007'', \<lparr>id_t = ''T007'', title = ''Water plants'', description = [],
                               completed = False, created_at = half_past_ten\<rparr>)],
          counter = 0,
          storage = Some (two_record_file (second_record\<lparr>td_id := None\<rparr>))\<rparr>
   \<and> init (Some (two_record_file (second_record\<lparr>td_title := None\<rparr>))) =
     Inr \<lparr>tasks = [(''T007'', \<lparr>id_t = ''T007'', title = ''Water plants'', description = [],
                               completed = False, created_at = half_past_ten\<rparr>)],
          counter = 0,
          storage = Some (two_record_file (second_record\<lparr>td_title := None\<rparr>))\<rparr>
   \<and> init (Some (two_record_file (second_record\<lparr>td_created_at := None\<rparr>))) =
     Inr \<lparr>tasks = [(''T007'', \<lparr>id_t = ''T007'', title = ''Water plants'', description = [],
                               completed = False, created_at = half_past_ten\<rparr>)],
          counter = 0,
          storage = Some (two_record_file (second_record\<lparr>td_created_at := None\<rparr>))\<rparr>
   \<and> init (Some (two_record_file (second_record\<lparr>td_description := None, td_completed := None\<rparr>))) =
     Inr \<lparr>tasks = [(''T007'', \<lparr>id_t = ''T007'', title = ''Water plants'', description = [],
                               completed = False, created_at = half_past_ten\<rparr>),
                    (''T008'', \<lparr>id_t = ''T008'', title = ''Feed cat'', description = [],
                               completed = False, created_at = half_past_ten\<rparr>)],
          counter = 8,
          storage = Some (two_record_file
                      (second_record\<lparr>td_description := None, td_completed := None\<rparr>))\<rparr>
   \<and> init (Some bare_file) =
       Inr \<lparr>tasks = [(''T007'', \<lparr>id_t = ''T007'', title = ''Water plants'', description = [],
                                 completed = False, created_at = half_past_ten\<rparr>)],
            counter = 0, storage = Some bare_file\<rparr>
   \<and> init (Some Malformed) = Inr \<lparr>tasks = [], counter = 0, storage = Some Malformed\<rparr>"
  by code_simp

section \<open>Identifiers issued by the allocator\<close>

lemma below_ten:
  assumes "d < (10::nat)"
  shows "d = 0 \<or> d = 1 \<or> d = 2 \<or> d = 3 \<or> d = 4 \<or> d = 5 \<or> d = 6 \<or> d = 7 \<or> d = 8 \<or> d = 9"
  using assms by arith

lemma digit_char_props:
  assumes "d < 10"
  shows "is_digit (digit_char d)" and "digit_val (digit_char d) = d"
    and "(digit_char d = CHR ''0'') = (d = 0)"
  using below_ten [OF assms]
  by (auto simp: digit_char_def is_digit_def digit_val_def)

lemma dec_val_snoc: "dec_val (xs @ [c]) = 10 * dec_val xs + digit_val c"
  by (simp add: dec_val_def)

lemma digits_props:
  "list_all is_digit (digits n) \<and> dec_val (digits n) = n \<and> digits n \<noteq> []
   \<and> (0 < n \<longrightarrow> hd (digits n) \<noteq> CHR ''0'')"
proof (induction n rule: digits.induct)
  case (1 n)
  show ?case
  proof (cases "n < 10")
    case True
    then have "digits n = [digit_char n]" by (simp add: digits.simps)
    then show ?thesis
      using digit_char_props [OF True] by (simp add: dec_val_Cons dec_val_Nil)
  next
    case False
    then have e: "digits n = digits (n div 10) @ [digit_char (n mod 10)]"
      by (subst digits.simps) simp
    have m: "n mod 10 < 10" by simp
    have p: "0 < n div 10" using False by (simp add: div_greater_zero_iff)
    show ?thesis
      using "1.IH" [OF False] digit_char_props [OF m] p
      by (simp add: e dec_val_snoc)
  qed
qed

lemma dec_val_zeros: "dec_val (replicate k (CHR ''0'') @ ds) = dec_val ds"
proof (induction k)
  case 0
  show ?case by simp
next
  case (Suc k)
  have "digit_val (CHR ''0'') = 0" by (simp add: digit_val_def)
  then show ?case using Suc by (simp add: dec_val_Cons)
qed

lemma zero_pad_props:
  shows "list_all is_digit (zero_pad w n)" and "dec_val (zero_pad w n) = n"
    and "length (zero_pad w n) = max w (length (digits n))"
proof -
  have "is_digit (CHR ''0'')" by (simp add: is_digit_def)
  then have "list_all is_digit (replicate (w - length (digits n)) (CHR ''0''))"
    by (simp add: list_all_iff)
  then show "list_all is_digit (zero_pad w n)" and "dec_val (zero_pad w n) = n"
    and "length (zero_pad w n) = max w (length (digits n))"
    using digits_props [of n] by (auto simp: zero_pad_def dec_val_zeros)
qed



lemma upper_format_id: "upper (format_id n) = format_id n"
  by (simp add: format_id_def upper_T_digits zero_pad_props(1))

lemma format_id_inj:
  assumes "format_id m = format_id n"
  shows "m = n"
proof -
  have "zero_pad 3 m = zero_pad 3 n" using assms by (simp add: format_id_def)
  then have "dec_val (zero_pad 3 m) = dec_val (zero_pad 3 n)" by (rule arg_cong)
  then show ?thesis unfolding zero_pad_props(2) .
qed

subsection \<open>What \<open>add\<close> does\<close>

lemma add_success:
  assumes "validate_title rt = Inr t" "validate_description rd = Inr d"
  shows "add s now rt rd =
           (Inr (Task (format_id (counter s + 1)) t d False now),
            save (s\<lparr>counter := counter s + 1,
                    tasks := AList.update (format_id (counter s + 1))
                               (Task (format_id (counter s + 1)) t d False now) (tasks s)\<rparr>))"
  using assms by (simp add: add_def next_id_def Let_def)

lemma add_cases:
  "(\<exists>e. add s now rt rd = (Inl e, s)) \<or>
   (\<exists>t d. validate_title rt = Inr t \<and> validate_description rd = Inr d)"
  by (cases "validate_title rt"; cases "validate_description rd") (simp_all add: add_def)

lemma add_result:
  assumes "fst (add s now rt rd) = Inr r"
  shows "id_t r = format_id (counter s + 1)"
    and "counter (snd (add s now rt rd)) = counter s + 1"
    and "tasks (snd (add s now rt rd)) = AList.update (format_id (counter s + 1)) r (tasks s)"
    and "completed r = False" and "created_at r = now"
    and "validate_title rt = Inr (title r)" and "validate_description rd = Inr (description r)"
proof -
  obtain t d where v: "validate_title rt = Inr t" "validate_description rd = Inr d"
    using add_cases [of s now rt rd] assms by auto
  have r: "r = Task (format_id (counter s + 1)) t d False now"
    using add_success [OF v, of s now] assms by simp
  show "id_t r = format_id (counter s + 1)"
    by (simp add: r Task_def upper_format_id)
  show "counter (snd (add s now rt rd)) = counter s + 1"
    by (simp add: add_success [OF v] counter_save)
  show "tasks (snd (add s now rt rd)) = AList.update (format_id (counter s + 1)) r (tasks s)"
    by (simp add: add_success [OF v] tasks_save r)
  show "completed r = False" "created_at r = now"
    "validate_title rt = Inr (title r)" "validate_description rd = Inr (description r)"
    by (simp_all add: r Task_def v)
qed

subsection \<open>The counter along a sequence of calls\<close>

lemma counter_assign: "counter (assign s k t) = counter s"
  by (simp add: assign_def)

lemma counter_update: "counter (snd (update s i nt nd)) = counter s"
  by (auto simp: update_def counter_save counter_assign split: sum.splits option.splits prod.splits)

lemma counter_delete: "counter (snd (delete s i)) = counter s"
  by (auto simp: delete_def counter_save split: sum.splits option.splits)

lemma counter_mark_complete: "counter (snd (mark_complete s i)) = counter s"
  by (auto simp: mark_complete_def counter_save counter_assign Let_def
      split: sum.splits prod.splits)

lemma counter_mark_incomplete: "counter (snd (mark_incomplete s i)) = counter s"
  by (auto simp: mark_incomplete_def counter_save counter_assign Let_def
      split: sum.splits prod.splits)

lemma counter_exec:
  "counter (snd (exec s c)) =
     counter s + (case fst (exec s c) of Inr t \<Rightarrow> (if is_add c then 1 else 0) | Inl e \<Rightarrow> 0)"
proof (cases c)
  case (Add now rt rd)
  show ?thesis
  proof (cases "fst (add s now rt rd)")
    case (Inl e)
    then show ?thesis using Add add_failure [of s now rt rd e] by simp
  next
    case (Inr r)
    then show ?thesis using Add add_result(2) [OF Inr] by simp
  qed
qed (simp_all add: counter_update counter_delete counter_mark_complete counter_mark_incomplete
    split: sum.splits)

lemma added_ids:
  "map id_t (added s cmds) = map format_id [counter s + 1 ..< counter s + 1 + length (added s cmds)]
   \<and> counter (run s cmds) = counter s + length (added s cmds)"
proof (induction cmds arbitrary: s)
  case Nil
  show ?case by simp
next
  case (Cons c cs)
  let ?s = "snd (exec s c)"
  note ih = Cons.IH [of ?s]
  show ?case
  proof (cases "fst (exec s c)")
    case (Inl e)
    then have "counter ?s = counter s" by (simp add: counter_exec)
    then show ?thesis using ih Inl by simp
  next
    case (Inr r)
    show ?thesis
    proof (cases "is_add c")
      case False
      then have "counter ?s = counter s" using Inr by (simp add: counter_exec)
      then show ?thesis using ih Inr False by simp
    next
      case True
      then obtain now rt rd where c: "c = Add now rt rd" by (cases c) simp_all
      have k: "counter ?s = counter s + 1" using Inr True by (simp add: counter_exec)
      have i: "id_t r = format_id (counter s + 1)"
        using add_result(1) [of s now rt rd r] Inr c by simp
      have "[Suc (counter s) ..< Suc (counter s) + Suc (length (added ?s cs))]
              = Suc (counter s) # [Suc (Suc (counter s)) ..< Suc (Suc (counter s)) + length (added ?s cs)]"
        by (subst upt_rec) simp
      then show ?thesis using ih Inr True k i by simp
    qed
  qed
qed




section \<open>What the operations preserve\<close>

subsection \<open>Entries of the dictionary\<close>

lemma list_all_update:
  "list_all P al \<Longrightarrow> P (k, v) \<Longrightarrow> list_all P (AList.update k v al)"
  by (induction al) auto

lemma list_all_delete: "list_all P al \<Longrightarrow> list_all P (AList.delete k al)"
  by (induction al) auto

lemma list_all_map_of: "list_all P al \<Longrightarrow> map_of al k = Some v \<Longrightarrow> P (k, v)"
  by (induction al) (auto split: if_splits)

lemma update_present_keys:
  "map_of al k = Some v \<Longrightarrow> map fst (AList.update k v' al) = map fst al"
proof -
  assume "map_of al k = Some v"
  then have "k \<in> fst ` set al" by (metis map_of_eq_None_iff option.distinct(1))
  then show ?thesis by (simp add: AList.update_keys)
qed

lemma tasks_assign: "tasks (assign s k t) = AList.update k t (tasks s)"
  by (simp add: assign_def)

lemma get_ref_entry: "get_ref s raw = Inr (k, t) \<Longrightarrow> map_of (tasks s) k = Some t"
  by (auto simp: get_ref_Inr)

text \<open>
  A property of the entries that the new task of \<open>add\<close> has, and that an entry keeps
  when it is given a validated title, a validated description or a flag, holds of all
  entries after any call.
\<close>

lemma update_preserves:
  assumes inv: "list_all P (tasks s)"
    and ttl: "\<And>k t raw v. P (k, t) \<Longrightarrow> validate_title raw = Inr v \<Longrightarrow> P (k, t\<lparr>title := v\<rparr>)"
    and dsc: "\<And>k t raw v. P (k, t) \<Longrightarrow> validate_description raw = Inr v
                \<Longrightarrow> P (k, t\<lparr>description := v\<rparr>)"
  shows "list_all P (tasks (snd (update s i nt nd)))"
proof (cases "get_ref s i")
  case (Inl e)
  then show ?thesis using inv by (simp add: update_def)
next
  case (Inr kt)
  obtain k t where kt: "kt = (k, t)" by (cases kt)
  have p: "P (k, t)" using list_all_map_of [OF inv get_ref_entry] Inr kt by blast
  define r1 where "r1 = (case nt of None \<Rightarrow> Inr (t, s)
      | Some x \<Rightarrow> (case validate_title x of Inl e \<Rightarrow> Inl e
                    | Inr v \<Rightarrow> Inr (t\<lparr>title := v\<rparr>, assign s k (t\<lparr>title := v\<rparr>))))"
  show ?thesis
  proof (cases r1)
    case (Inl e)
    then show ?thesis using inv Inr kt by (simp add: update_def r1_def)
  next
    case r1: (Inr ts1)
    obtain t1 s1 where ts1: "ts1 = (t1, s1)" by (cases ts1)
    have one: "P (k, t1) \<and> list_all P (tasks s1)"
      using r1 ts1 p inv ttl unfolding r1_def
      by (auto simp: tasks_assign list_all_update split: option.splits sum.splits)
    define r2 where "r2 = (case nd of None \<Rightarrow> Inr (t1, s1)
      | Some x \<Rightarrow> (case validate_description x of Inl e \<Rightarrow> Inl e
                    | Inr v \<Rightarrow> Inr (t1\<lparr>description := v\<rparr>, assign s1 k (t1\<lparr>description := v\<rparr>))))"
    have u: "update s i nt nd =
        (if nt = None \<and> nd = None then (Inl NoChangesSpecifiedError, s)
         else (case r2 of Inl e \<Rightarrow> (Inl e, s1) | Inr (t2, s2) \<Rightarrow> (Inr t2, save s2)))"
      using Inr kt r1 ts1 unfolding update_def r1_def r2_def by simp
    show ?thesis
    proof (cases r2)
      case (Inl e)
      then show ?thesis using u one inv by simp
    next
      case r2: (Inr ts2)
      obtain t2 s2 where ts2: "ts2 = (t2, s2)" by (cases ts2)
      have "list_all P (tasks s2)"
        using r2 ts2 one dsc unfolding r2_def
        by (auto simp: tasks_assign list_all_update split: option.splits sum.splits)
      then show ?thesis using u r2 ts2 inv by (simp add: tasks_save)
    qed
  qed
qed

lemma mark_preserves:
  assumes inv: "list_all P (tasks s)"
    and flag: "\<And>k t b. P (k, t) \<Longrightarrow> P (k, t\<lparr>completed := b\<rparr>)"
  shows "list_all P (tasks (snd (mark_complete s i)))"
    and "list_all P (tasks (snd (mark_incomplete s i)))"
proof -
  show "list_all P (tasks (snd (mark_complete s i)))"
  proof (cases "get_ref s i")
    case (Inl e)
    then show ?thesis using inv by (simp add: mark_complete_def)
  next
    case (Inr kt)
    obtain k t where kt: "kt = (k, t)" by (cases kt)
    have "P (k, t)" using list_all_map_of [OF inv get_ref_entry] Inr kt by blast
    then have "P (k, t\<lparr>completed := True\<rparr>)" by (rule flag)
    then show ?thesis
      using inv Inr kt
      by (simp add: mark_complete_def Let_def tasks_save tasks_assign list_all_update)
  qed
  show "list_all P (tasks (snd (mark_incomplete s i)))"
  proof (cases "get_ref s i")
    case (Inl e)
    then show ?thesis using inv by (simp add: mark_incomplete_def)
  next
    case (Inr kt)
    obtain k t where kt: "kt = (k, t)" by (cases kt)
    have "P (k, t)" using list_all_map_of [OF inv get_ref_entry] Inr kt by blast
    then have "P (k, t\<lparr>completed := False\<rparr>)" by (rule flag)
    then show ?thesis
      using inv Inr kt
      by (simp add: mark_incomplete_def Let_def tasks_save tasks_assign list_all_update)
  qed
qed

lemma delete_preserves:
  "list_all P (tasks s) \<Longrightarrow> list_all P (tasks (snd (delete s i)))"
  by (auto simp: delete_def tasks_save list_all_delete split: sum.splits option.splits)

lemma add_preserves:
  assumes inv: "list_all P (tasks s)"
    and new: "\<And>t d. validate_title rt = Inr t \<Longrightarrow> validate_description rd = Inr d
                \<Longrightarrow> P (format_id (counter s + 1), Task (format_id (counter s + 1)) t d False now)"
  shows "list_all P (tasks (snd (add s now rt rd)))"
proof -
  consider e where "add s now rt rd = (Inl e, s)"
    | t d where "validate_title rt = Inr t" "validate_description rd = Inr d"
    using add_cases [of s now rt rd] by blast
  then show ?thesis
  proof cases
    case 1
    then show ?thesis using inv by simp
  next
    case 2
    then show ?thesis
      using inv new [OF 2] by (simp add: add_success tasks_save list_all_update)
  qed
qed

subsection \<open>Keys\<close>

lemma keys_update: "map fst (tasks (snd (update s i nt nd))) = map fst (tasks s)"
proof (cases "get_ref s i")
  case (Inl e)
  then show ?thesis by (simp add: update_def)
next
  case (Inr kt)
  obtain k t where kt: "kt = (k, t)" by (cases kt)
  have m: "map_of (tasks s) k = Some t" using Inr kt get_ref_entry by blast
  have a: "\<And>v. map fst (AList.update k v (tasks s)) = map fst (tasks s)"
    using update_present_keys [OF m] by blast
  then have b: "\<And>v w. map fst (AList.update k w (AList.update k v (tasks s))) = map fst (tasks s)"
    by simp
  show ?thesis
    using Inr kt a b
    by (auto simp: update_def tasks_save tasks_assign split: option.splits sum.splits)
qed

lemma keys_mark:
  "map fst (tasks (snd (mark_complete s i))) = map fst (tasks s)"
  "map fst (tasks (snd (mark_incomplete s i))) = map fst (tasks s)"
proof -
  show "map fst (tasks (snd (mark_complete s i))) = map fst (tasks s)"
  proof (cases "get_ref s i")
    case (Inl e)
    then show ?thesis by (simp add: mark_complete_def)
  next
    case (Inr kt)
    obtain k t where kt: "kt = (k, t)" by (cases kt)
    have "map_of (tasks s) k = Some t" using Inr kt get_ref_entry by blast
    then have "map fst (AList.update k (t\<lparr>completed := True\<rparr>) (tasks s)) = map fst (tasks s)"
      by (rule update_present_keys)
    then show ?thesis
      using Inr kt by (simp add: mark_complete_def Let_def tasks_save tasks_assign)
  qed
  show "map fst (tasks (snd (mark_incomplete s i))) = map fst (tasks s)"
  proof (cases "get_ref s i")
    case (Inl e)
    then show ?thesis by (simp add: mark_incomplete_def)
  next
    case (Inr kt)
    obtain k t where kt: "kt = (k, t)" by (cases kt)
    have "map_of (tasks s) k = Some t" using Inr kt get_ref_entry by blast
    then have "map fst (AList.update k (t\<lparr>completed := False\<rparr>) (tasks s)) = map fst (tasks s)"
      by (rule update_present_keys)
    then show ?thesis
      using Inr kt by (simp add: mark_incomplete_def Let_def tasks_save tasks_assign)
  qed
qed

lemma keys_delete:
  "map fst (tasks (snd (delete s i))) = map fst (tasks s)
   \<or> (\<exists>k. map fst (tasks (snd (delete s i))) = map fst (AList.delete k (tasks s)))"
  by (auto simp: delete_def tasks_save split: sum.splits option.splits)

lemma keys_add:
  "map fst (tasks (snd (add s now rt rd))) = map fst (tasks s)
   \<or> (\<exists>r. fst (add s now rt rd) = Inr r
        \<and> map fst (tasks (snd (add s now rt rd)))
            = map fst (AList.update (format_id (counter s + 1)) r (tasks s)))"
proof (cases "fst (add s now rt rd)")
  case (Inl e)
  then show ?thesis using add_failure [of s now rt rd e] by simp
next
  case (Inr r)
  then show ?thesis using add_result(3) [OF Inr] by simp
qed

lemma distinct_exec:
  assumes "distinct (map fst (tasks s))"
  shows "distinct (map fst (tasks (snd (exec s c))))"
proof (cases c)
  case (Add now rt rd)
  then show ?thesis
    using keys_add [of s now rt rd] assms by (auto simp: AList.distinct_update)
next
  case (Update i nt nd)
  then show ?thesis using assms by (simp add: keys_update)
next
  case (Delete i)
  then show ?thesis
    using keys_delete [of s i] assms by (auto simp: AList.distinct_delete)
next
  case (MarkComplete i)
  then show ?thesis using assms by (simp add: keys_mark)
next
  case (MarkIncomplete i)
  then show ?thesis using assms by (simp add: keys_mark)
qed

text \<open>The same for all five operations at once.\<close>

lemma exec_preserves:
  assumes inv: "list_all P (tasks s)"
    and new: "\<And>now rt rd t d. c = Add now rt rd \<Longrightarrow> validate_title rt = Inr t
                \<Longrightarrow> validate_description rd = Inr d
                \<Longrightarrow> P (format_id (counter s + 1), Task (format_id (counter s + 1)) t d False now)"
    and ttl: "\<And>k t raw v. P (k, t) \<Longrightarrow> validate_title raw = Inr v \<Longrightarrow> P (k, t\<lparr>title := v\<rparr>)"
    and dsc: "\<And>k t raw v. P (k, t) \<Longrightarrow> validate_description raw = Inr v
                \<Longrightarrow> P (k, t\<lparr>description := v\<rparr>)"
    and flag: "\<And>k t b. P (k, t) \<Longrightarrow> P (k, t\<lparr>completed := b\<rparr>)"
  shows "list_all P (tasks (snd (exec s c)))"
proof (cases c)
  case (Add now rt rd)
  then show ?thesis using add_preserves [of P s rt rd now] inv new by simp
next
  case (Update i nt nd)
  then show ?thesis using update_preserves [of P s i nt nd] inv ttl dsc by simp
next
  case (Delete i)
  then show ?thesis using delete_preserves [OF inv] by simp
next
  case (MarkComplete i)
  then show ?thesis using mark_preserves(1) [of P s i] inv flag by simp
next
  case (MarkIncomplete i)
  then show ?thesis using mark_preserves(2) [of P s i] inv flag by simp
qed

subsection \<open>Loading\<close>

lemma restore_tasks_preserves:
  assumes "list_all P ts"
    and "\<And>d t. d \<in> set ds \<Longrightarrow> task_of_data d = Inr t \<Longrightarrow> P (id_t t, t)"
  shows "list_all P (snd (restore_tasks ds ts))"
  using assms
proof (induction ds arbitrary: ts)
  case Nil
  then show ?case by simp
next
  case (Cons d ds)
  show ?case
  proof (cases "task_of_data d")
    case (Inl e)
    then show ?thesis using Cons.prems by simp
  next
    case (Inr t)
    have "P (id_t t, t)" using Cons.prems(2) [of d t] Inr by simp
    then have "list_all P (AList.update (id_t t) t ts)"
      using Cons.prems(1) by (simp add: list_all_update)
    moreover have "P (id_t t', t')" if "d' \<in> set ds" "task_of_data d' = Inr t'" for d' t'
      using Cons.prems(2) [of d' t'] that by simp
    ultimately have "list_all P (snd (restore_tasks ds (AList.update (id_t t) t ts)))"
      by (rule Cons.IH)
    then show ?thesis using Inr by simp
  qed
qed

lemma restore_tasks_distinct:
  "distinct (map fst ts) \<Longrightarrow> distinct (map fst (snd (restore_tasks ds ts)))"
  by (induction ds arbitrary: ts) (auto simp: AList.distinct_update split: sum.splits)

lemma init_tasks:
  assumes "init f = Inr s"
  shows "tasks s = [] \<or> tasks s = snd (restore_tasks (records f) [])"
  using assms
  by (auto simp: init_def load_def load_body_def records_def
      split: option.splits file_content.splits prod.splits if_splits)

lemma init_preserves:
  assumes "init f = Inr s"
    and "\<And>d t. d \<in> set (records f) \<Longrightarrow> task_of_data d = Inr t \<Longrightarrow> P (id_t t, t)"
  shows "list_all P (tasks s)"
  using init_tasks [OF assms(1)] restore_tasks_preserves [of P "[]" "records f"] assms(2)
  by auto

lemma init_distinct: "init f = Inr s \<Longrightarrow> distinct (map fst (tasks s))"
  using init_tasks [of f s] restore_tasks_distinct [of "[]" "records f"] by auto

section \<open>The store invariant\<close>

lemma last_dropWhile:
  "dropWhile P xs \<noteq> [] \<Longrightarrow> last (dropWhile P xs) = last xs"
  by (metis last_appendR takeWhile_dropWhile_id)

lemma strip_idem: "strip (strip s) = strip s"
proof -
  define a where "a = dropWhile is_space s"
  define e where "e = dropWhile is_space (rev a)"
  have b: "strip s = rev e" by (simp add: strip_def a_def e_def)
  have "dropWhile is_space (rev e) = rev e"
  proof (cases "e = []")
    case True
    then show ?thesis by simp
  next
    case False
    then have "last e = last (rev a)" unfolding e_def by (rule last_dropWhile)
    moreover have "a \<noteq> []" using False e_def by auto
    ultimately have "last e = hd a" by (simp add: last_rev)
    moreover have "\<not> is_space (hd a)"
      using \<open>a \<noteq> []\<close> unfolding a_def by (rule hd_dropWhile)
    ultimately have "\<not> is_space (hd (rev e))" using False by (simp add: hd_rev)
    then show ?thesis using False by (cases "rev e") simp_all
  qed
  then have "strip (rev e) = rev (dropWhile is_space e)" by (simp add: strip_def)
  also have "\<dots> = rev e" unfolding e_def by simp
  finally show ?thesis unfolding b .
qed

lemma validate_title_ok: "validate_title raw = Inr v \<Longrightarrow> title_ok v"
  by (auto simp: validate_title_def title_ok_def Let_def strip_idem split: if_splits)

lemma validate_description_ok: "validate_description raw = Inr v \<Longrightarrow> description_ok v"
  by (auto simp: validate_description_def description_ok_def split: if_splits)

lemma keyed_exec:
  assumes "keyed s"
  shows "keyed (snd (exec s c))"
proof -
  let ?P = "\<lambda>kv. id_t (snd kv) = fst kv \<and> upper (fst kv) = fst kv"
  have "list_all ?P (tasks s)" using assms by (simp add: keyed_def)
  then have "list_all ?P (tasks (snd (exec s c)))"
    by (rule exec_preserves) (simp_all add: Task_def upper_format_id)
  moreover have "distinct (map fst (tasks (snd (exec s c))))"
    using assms by (simp add: keyed_def distinct_exec)
  ultimately show ?thesis by (simp add: keyed_def)
qed

lemma store_inv_exec:
  assumes "store_inv s"
  shows "store_inv (snd (exec s c))"
proof -
  let ?P = "\<lambda>kv. title_ok (title (snd kv)) \<and> description_ok (description (snd kv))"
  have "list_all ?P (tasks s)" using assms by (simp add: store_inv_def)
  then have "list_all ?P (tasks (snd (exec s c)))"
    by (rule exec_preserves)
      (simp_all add: Task_def validate_title_ok validate_description_ok)
  then show ?thesis using assms keyed_exec [of s c] by (simp add: store_inv_def)
qed

lemma keyed_init: "init f = Inr s \<Longrightarrow> keyed s"
proof -
  assume i: "init f = Inr s"
  let ?P = "\<lambda>kv. id_t (snd kv) = fst kv \<and> upper (fst kv) = fst kv"
  have "?P (id_t t, t)" if "task_of_data d = Inr t" for d t
    using that by (auto simp: task_of_data_def Task_def upper_idem split: option.splits)
  then have "list_all ?P (tasks s)" using init_preserves [OF i, of ?P] by blast
  then show ?thesis using init_distinct [OF i] by (simp add: keyed_def)
qed

lemma store_inv_init:
  assumes i: "init f = Inr s" and r: "list_all record_ok (records f)"
  shows "store_inv s"
proof -
  let ?P = "\<lambda>kv. title_ok (title (snd kv)) \<and> description_ok (description (snd kv))"
  have "?P (id_t t, t)" if "d \<in> set (records f)" "task_of_data d = Inr t" for d t
  proof -
    have "record_ok d" using r that(1) by (simp add: list_all_iff)
    then show ?thesis
      using that(2)
      by (auto simp: task_of_data_def Task_def record_ok_def description_ok_def
          split: option.splits)
  qed
  then have "list_all ?P (tasks s)" using init_preserves [OF i, of ?P] by blast
  then show ?thesis using keyed_init [OF i] by (simp add: store_inv_def)
qed

lemma store_inv_file:
  assumes "store_inv s"
  shows "list_all record_ok (records (storage (save s)))"
proof -
  have "list_all (\<lambda>kv. title_ok (title (snd kv)) \<and> description_ok (description (snd kv)))
          (tasks s)"
    using assms by (simp add: store_inv_def)
  then show ?thesis
    by (simp add: save_def records_def list_all_iff record_ok_def task_to_data_def)
qed

lemma keyed_entry: "keyed s \<Longrightarrow> map_of (tasks s) k = Some t \<Longrightarrow> id_t t = k"
  using list_all_map_of [of "\<lambda>kv. id_t (snd kv) = fst kv \<and> upper (fst kv) = fst kv" "tasks s" k t]
  by (simp add: keyed_def)

text \<open>
  C5, counterexample, at construction. A file is read without validation, and a record
  with an empty title gives a store that holds a task with an empty title.
\<close>

theorem load_accepts_empty_title:
  "init (Some untitled_file) = Inr untitled_store \<and> \<not> store_inv untitled_store"
  by code_simp

text \<open>
  C5, amended. The invariant of the store is: the dictionary has one entry per key, every
  task is stored under its own id, every title is non-empty after trimming and has at
  most 200 characters, every description has at most 1000. \<open>add\<close>, \<open>update\<close>, \<open>delete\<close>,
  \<open>mark_complete\<close> and \<open>mark_incomplete\<close> preserve it, whether they succeed or fail, and
  \<open>update\<close> and the two marking operations leave the sequence of keys as it is.
  Construction always gives a dictionary with each task under its own id; it gives the
  constraints on titles and descriptions when the records of the file satisfy them, as
  those of a file saved from a store with the invariant do.
\<close>

theorem store_invariant_preserved:
  "(store_inv s \<longrightarrow>
      store_inv (snd (add s now rt rd)) \<and> store_inv (snd (update s i nt nd))
      \<and> store_inv (snd (delete s i)) \<and> store_inv (snd (mark_complete s i))
      \<and> store_inv (snd (mark_incomplete s i))
      \<and> list_all record_ok (records (storage (save s))))
   \<and> map fst (tasks (snd (update s i nt nd))) = map fst (tasks s)
   \<and> map fst (tasks (snd (mark_complete s i))) = map fst (tasks s)
   \<and> map fst (tasks (snd (mark_incomplete s i))) = map fst (tasks s)
   \<and> (keyed s \<and> map_of (tasks s) k = Some t \<longrightarrow> id_t t = k)
   \<and> (init f = Inr s0 \<longrightarrow> keyed s0 \<and> (list_all record_ok (records f) \<longrightarrow> store_inv s0))"
proof -
  have a: "store_inv s \<longrightarrow>
      store_inv (snd (add s now rt rd)) \<and> store_inv (snd (update s i nt nd))
      \<and> store_inv (snd (delete s i)) \<and> store_inv (snd (mark_complete s i))
      \<and> store_inv (snd (mark_incomplete s i))
      \<and> list_all record_ok (records (storage (save s)))"
    using store_inv_exec [of s "Add now rt rd"] store_inv_exec [of s "Update i nt nd"]
      store_inv_exec [of s "Delete i"] store_inv_exec [of s "MarkComplete i"]
      store_inv_exec [of s "MarkIncomplete i"] store_inv_file [of s]
    by simp
  have b: "keyed s \<and> map_of (tasks s) k = Some t \<longrightarrow> id_t t = k"
    using keyed_entry by blast
  have c: "init f = Inr s0 \<longrightarrow> keyed s0 \<and> (list_all record_ok (records f) \<longrightarrow> store_inv s0)"
    using keyed_init store_inv_init by blast
  show ?thesis using a b c keys_update [of s i nt nd] keys_mark [of s i] by blast
qed

lemma fixture_records_ok: "list_all record_ok (records (storage service_with_tasks))"
  unfolding service_with_tasks_value by code_simp

lemma init_saved_fixture: "init (storage service_with_tasks) = Inr service_with_tasks"
  unfolding service_with_tasks_value by code_simp

theorem store_invariant_preserved_witness:
  "store_inv (snd (update service_with_tasks ''t001'' (Some ''  Buy organic groceries '') None))
   \<and> store_inv (snd (update service_with_tasks ''T001'' (Some ''New title'') (Some long_description)))
   \<and> store_inv (snd (add service_with_tasks just_after ''Walk the dog'' []))
   \<and> store_inv (snd (delete service_with_tasks ''T002''))
   \<and> keyed service_with_tasks
   \<and> id_t \<lparr>id_t = ''T002'', title = ''Call mom'', description = [], completed = True,
            created_at = half_past_ten\<rparr> = ''T002''"
proof -
  have k: "keyed service_with_tasks"
    using store_invariant_preserved [where f = "storage service_with_tasks"
        and ?s0.0 = service_with_tasks] init_saved_fixture
    by blast
  have inv: "store_inv service_with_tasks"
    using store_invariant_preserved [where f = "storage service_with_tasks"
        and ?s0.0 = service_with_tasks] init_saved_fixture fixture_records_ok
    by blast
  have m: "map_of (tasks service_with_tasks) ''T002'' =
      Some \<lparr>id_t = ''T002'', title = ''Call mom'', description = [], completed = True,
            created_at = half_past_ten\<rparr>"
    by (simp add: service_with_tasks_value)
  show ?thesis
    using store_invariant_preserved
        [of service_with_tasks just_after "''Walk the dog''" "[]" "''t001''"
          "Some ''  Buy organic groceries ''" None]
      store_invariant_preserved
        [of service_with_tasks _ _ _ "''T001''" "Some ''New title''" "Some long_description"]
      store_invariant_preserved [of service_with_tasks _ _ _ "''T002''"]
      store_invariant_preserved [where s = service_with_tasks and k = "''T002''"
        and t = "\<lparr>id_t = ''T002'', title = ''Call mom'', description = [], completed = True,
            created_at = half_past_ten\<rparr>"]
      inv k m
    by blast
qed

section \<open>Deletion\<close>

lemma reachable_keyed: "reachable s \<Longrightarrow> keyed s"
  by (induction rule: reachable.induct) (simp_all add: keyed_init keyed_exec)

lemma reachable_run: "reachable s \<Longrightarrow> list_all clock_ok cmds \<Longrightarrow> reachable (run s cmds)"
  by (induction cmds arbitrary: s) (simp_all add: reachable.step)

lemma reachable_empty: "reachable empty_store"
proof -
  have "init None = Inr empty_store" by (simp add: init_def load_def empty_store_def)
  then show ?thesis by (rule reachable.constructed)
qed

lemma length_delete:
  "distinct (map fst al) \<Longrightarrow> map_of al k = Some v \<Longrightarrow> Suc (length (AList.delete k al)) = length al"
proof (induction al)
  case Nil
  then show ?case by simp
next
  case (Cons a al)
  show ?case
  proof (cases "fst a = k")
    case True
    then have "k \<notin> fst ` set al" using Cons.prems(1) by auto
    then have "AList.delete k al = al" by simp
    then show ?thesis using True by simp
  next
    case False
    then have "map_of al k = Some v" using Cons.prems(2) by (cases a) auto
    then show ?thesis using Cons False by simp
  qed
qed

lemma delete_present:
  assumes "get s raw = Inr t"
  shows "delete s raw = (Inr t, save (s\<lparr>tasks := AList.delete (upper raw) (tasks s)\<rparr>))"
  using assms by (auto simp: get_Inr delete_def validate_task_id_def)

lemma get_other:
  assumes "\<And>k. k \<noteq> upper raw \<Longrightarrow> map_of (tasks s') k = map_of (tasks s) k"
    and "upper other \<noteq> upper raw"
  shows "get s' other = get s other"
  using assms
  by (auto simp: get_def get_ref_def validate_task_id_def split: option.splits)

subsection \<open>Ids that the allocator has yet to issue\<close>

lemma allocated_empty: "allocated empty_store"
  by (simp add: allocated_def empty_store_def)

lemma allocated_keys:
  assumes "allocated s" "set (map fst (tasks s')) \<subseteq> set (map fst (tasks s))"
    "counter s \<le> counter s'"
  shows "allocated s'"
  using assms unfolding allocated_def by (meson less_le_trans not_le subsetD le_less_trans)

lemma allocated_exec:
  assumes "allocated s"
  shows "allocated (snd (exec s c))"
proof (cases c)
  case (Add now rt rd)
  show ?thesis
  proof (cases "fst (add s now rt rd)")
    case (Inl e)
    then show ?thesis using Add assms add_failure [of s now rt rd e] by simp
  next
    case (Inr r)
    let ?s = "snd (add s now rt rd)"
    have c: "counter ?s = counter s + 1" by (rule add_result(2) [OF Inr])
    have "tasks ?s = AList.update (format_id (counter s + 1)) r (tasks s)"
      by (rule add_result(3) [OF Inr])
    then have k: "set (map fst (tasks ?s)) = insert (format_id (counter s + 1)) (set (map fst (tasks s)))"
      using AList.dom_update [of "format_id (counter s + 1)" r "tasks s"] by simp
    have "k \<noteq> format_id n" if "k \<in> set (map fst (tasks ?s))" "counter ?s < n" for k n
    proof (cases "k = format_id (counter s + 1)")
      case True
      have "counter s + 1 \<noteq> n" using that(2) c by simp
      then show ?thesis using True format_id_inj by blast
    next
      case False
      then have "k \<in> set (map fst (tasks s))" using that(1) k by simp
      moreover have "counter s < n" using that(2) c by simp
      ultimately show ?thesis using assms unfolding allocated_def by blast
    qed
    then have "allocated ?s" unfolding allocated_def by blast
    then show ?thesis using Add by simp
  qed
next
  case (Update i nt nd)
  then show ?thesis
    using allocated_keys [OF assms, of "snd (update s i nt nd)"]
    by (simp add: keys_update counter_update)
next
  case (Delete i)
  have "set (map fst (tasks (snd (delete s i)))) \<subseteq> set (map fst (tasks s))"
    by (auto simp: delete_def tasks_save AList.delete_eq split: sum.splits option.splits)
  then show ?thesis
    using Delete allocated_keys [OF assms, of "snd (delete s i)"] by (simp add: counter_delete)
next
  case (MarkComplete i)
  then show ?thesis
    using allocated_keys [OF assms, of "snd (mark_complete s i)"]
    by (simp add: keys_mark counter_mark_complete)
next
  case (MarkIncomplete i)
  then show ?thesis
    using allocated_keys [OF assms, of "snd (mark_incomplete s i)"]
    by (simp add: keys_mark counter_mark_incomplete)
qed

lemma allocated_run: "allocated s \<Longrightarrow> allocated (run s cmds)"
  by (induction cmds arbitrary: s) (simp_all add: allocated_exec)

lemma never_issued_again:
  assumes "allocated s" "k \<in> set (map fst (tasks s))" "counter s' = counter s"
  shows "k \<notin> set (map id_t (added s' cmds))"
proof
  have eq: "map id_t (added s' cmds)
              = map format_id [counter s' + 1 ..< counter s' + 1 + length (added s' cmds)]"
    using added_ids [of s' cmds] by blast
  assume "k \<in> set (map id_t (added s' cmds))"
  then have "k \<in> set (map format_id [counter s' + 1 ..< counter s' + 1 + length (added s' cmds)])"
    unfolding eq .
  then obtain n where n: "n \<in> set [counter s' + 1 ..< counter s' + 1 + length (added s' cmds)]"
    and k: "k = format_id n" by auto
  from n have "counter s' + 1 \<le> n" by (simp only: set_upt atLeastLessThan_iff)
  then have "counter s < n" using assms(3) by simp
  then show False using k assms(1,2) unfolding allocated_def by blast
qed

text \<open>
  C9, counterexample, on a store constructed on a file that gives a task and no counter:
  the counter is 0, and after \<open>T001\<close> is deleted the next \<open>add\<close> issues \<open>T001\<close> again.
\<close>

theorem deleted_id_issued_again:
  "init (Some uncounted_file) = Inr uncounted_store
   \<and> map_sum (\<lambda>e. e) id_t (fst (delete uncounted_store ''T001'')) = Inr ''T001''
   \<and> map id_t (added (snd (delete uncounted_store ''T001''))
                  [Add half_past_ten ''Call mom'' []]) = [''T001'']"
  by code_simp

text \<open>
  C9, amended. In every store that holds the addressed task, \<open>delete\<close> returns that task
  and removes its entry and nothing else: the id is no longer found, every other id is
  found with the task it had, there is one task less, the counter stays and the file
  holds the new snapshot. When no id in the store is one the allocator has yet to issue,
  as in every store reached from the empty one, no later \<open>add\<close> returns the deleted id.
\<close>

theorem delete_removes_one_task:
  "(reachable s \<and> get s raw = Inr t \<longrightarrow>
      fst (delete s raw) = Inr t
      \<and> get (snd (delete s raw)) raw = Inl (TaskNotFoundError (upper raw))
      \<and> (\<forall>k. k \<noteq> upper raw \<longrightarrow> map_of (tasks (snd (delete s raw))) k = map_of (tasks s) k)
      \<and> (\<forall>other. upper other \<noteq> upper raw \<longrightarrow> get (snd (delete s raw)) other = get s other)
      \<and> Suc (count_tasks (snd (delete s raw))) = count_tasks s
      \<and> counter (snd (delete s raw)) = counter s
      \<and> persisted (snd (delete s raw))
      \<and> (allocated s \<longrightarrow> upper raw \<notin> set (map id_t (added (snd (delete s raw)) cmds))))
   \<and> allocated empty_store
   \<and> (allocated s \<longrightarrow> allocated (snd (exec s c)))"
proof -
  have main: "fst (delete s raw) = Inr t
      \<and> get (snd (delete s raw)) raw = Inl (TaskNotFoundError (upper raw))
      \<and> (\<forall>k. k \<noteq> upper raw \<longrightarrow> map_of (tasks (snd (delete s raw))) k = map_of (tasks s) k)
      \<and> (\<forall>other. upper other \<noteq> upper raw \<longrightarrow> get (snd (delete s raw)) other = get s other)
      \<and> Suc (count_tasks (snd (delete s raw))) = count_tasks s
      \<and> counter (snd (delete s raw)) = counter s
      \<and> persisted (snd (delete s raw))
      \<and> (allocated s \<longrightarrow> upper raw \<notin> set (map id_t (added (snd (delete s raw)) cmds)))"
    if r: "reachable s" and g: "get s raw = Inr t"
  proof -
    let ?s = "snd (delete s raw)"
    have d: "delete s raw = (Inr t, save (s\<lparr>tasks := AList.delete (upper raw) (tasks s)\<rparr>))"
      using g by (rule delete_present)
    have ts: "tasks ?s = AList.delete (upper raw) (tasks s)" by (simp add: d tasks_save)
    have m: "matches_id raw" and e: "map_of (tasks s) (upper raw) = Some t"
      using g by (simp_all add: get_Inr)
    have frame: "map_of (tasks ?s) k = map_of (tasks s) k" if "k \<noteq> upper raw" for k
      using that by (simp add: ts AList.delete_conv')
    have gone: "get ?s raw = Inl (TaskNotFoundError (upper raw))"
      using m by (simp add: get_def get_ref_def validate_task_id_def ts AList.delete_conv')
    have others: "get ?s other = get s other" if "upper other \<noteq> upper raw" for other
      using frame that by (rule get_other)
    have "distinct (map fst (tasks s))" using reachable_keyed [OF r] by (simp add: keyed_def)
    then have n: "Suc (count_tasks ?s) = count_tasks s"
      using e by (simp add: count_tasks_def ts length_delete)
    have c: "counter ?s = counter s" by (rule counter_delete)
    have p: "persisted ?s" by (simp add: d persisted_save)
    have "upper raw \<in> set (map fst (tasks s))"
      using e by (metis map_of_eq_None_iff option.distinct(1) set_map)
    then have a: "allocated s \<longrightarrow> upper raw \<notin> set (map id_t (added ?s cmds))"
      using never_issued_again [of s "upper raw" ?s cmds] c by blast
    show ?thesis using d gone frame others n c p a by simp
  qed
  then show ?thesis using allocated_empty allocated_exec [of s c] by blast
qed

lemma fixture_clock: "list_all clock_ok fixture_cmds"
  by code_simp

theorem delete_removes_one_task_witness:
  "map_sum (\<lambda>e. e) title (fst (delete service_with_tasks ''t002'')) = Inr ''Call mom''
   \<and> get (snd (delete service_with_tasks ''t002'')) ''T002'' = Inl (TaskNotFoundError ''T002'')
   \<and> get (snd (delete service_with_tasks ''t002'')) ''T001'' = get service_with_tasks ''T001''
   \<and> get (snd (delete service_with_tasks ''t002'')) ''T003'' = get service_with_tasks ''T003''
   \<and> Suc (count_tasks (snd (delete service_with_tasks ''t002''))) = 3
   \<and> ''T002'' \<notin> set (map id_t (added (snd (delete service_with_tasks ''t002''))
                                    [Add half_past_ten ''Call mom'' []]))"
proof -
  have r: "reachable service_with_tasks"
    unfolding service_with_tasks_def
    using reachable_empty fixture_clock by (rule reachable_run)
  have a: "allocated service_with_tasks"
    unfolding service_with_tasks_def using allocated_empty by (rule allocated_run)
  have g: "get service_with_tasks ''t002'' =
     Inr \<lparr>id_t = ''T002'', title = ''Call mom'', description = [], completed = True,
          created_at = half_past_ten\<rparr>"
    unfolding service_with_tasks_value by code_simp
  have u: "upper ''t002'' = ''T002''" "upper ''T002'' = ''T002''"
    "upper ''T001'' \<noteq> upper ''t002''" "upper ''T003'' \<noteq> upper ''t002''"
    by code_simp+
  have n: "count_tasks service_with_tasks = 3"
    by (simp add: service_with_tasks_value count_tasks_def)
  note d = delete_removes_one_task
    [of service_with_tasks "''t002''" _ "[Add half_past_ten ''Call mom'' []]",
      THEN conjunct1, THEN mp, OF conjI, OF r g]
  have "get (snd (delete service_with_tasks ''t002'')) ''T002''
          = get (snd (delete service_with_tasks ''t002'')) ''t002''"
    using validate_task_id_upper [of "''t002''"] u
    by (simp add: get_def get_ref_def)
  then show ?thesis using d a u n by simp
qed

section \<open>Saving and loading\<close>

subsection \<open>Timestamps\<close>













lemma format_naive_seconds: "format_created_at (naive_seconds t) = format_created_at t"
  by (simp add: format_created_at_def naive_seconds_def Let_def)


subsection \<open>Records\<close>





















end
